theory Spec2Isabelle
  imports Complex_Main
begin

section \<open>Values shared by the two scripts\<close>

text \<open>
  Both scripts work on numpy arrays.  An array of at most two dimensions is modelled by its
  number of dimensions and its contents: a 0-d array holds one element, a 1-d array a list,
  a 2-d array a list of rows together with its column count (the column count is kept
  because an array with no rows still has one: shape \<open>(0, 3)\<close> is not shape \<open>(0, 0)\<close>).
  A 2-d array is rectangular by construction in numpy; here that is the predicate
  \<open>wf_array\<close>.
\<close>

datatype py_error = IndexError | ValueError | TypeError | LinAlgError | ZeroDivisionError

datatype 'a ndarray = Array0 'a | Array1 "'a list" | Array2 nat "'a list list"

fun wf_array :: "'a ndarray \<Rightarrow> bool" where
  "wf_array (Array0 x) = True"
| "wf_array (Array1 xs) = True"
| "wf_array (Array2 c rs) = list_all (\<lambda>r. length r = c) rs"

fun shape :: "'a ndarray \<Rightarrow> nat list" where
  "shape (Array0 x) = []"
| "shape (Array1 xs) = [length xs]"
| "shape (Array2 c rs) = [length rs, c]"

section \<open>Post013: array to LaTeX matrix\<close>

subsection \<open>Strings\<close>

definition backslash :: char where
  "backslash = CHR 0x5C"

text \<open>\<open>str\<close> of a non-negative integer: its decimal digits, most significant first.\<close>

definition digits :: string where
  "digits = ''0123456789''"

fun str_nat :: "nat \<Rightarrow> string" where
  "str_nat n = (if n < 10 then [digits ! n]
                else str_nat (n div 10) @ [digits ! (n mod 10)])"

declare str_nat.simps [simp del]

definition str_int :: "int \<Rightarrow> string" where
  "str_int i = (if i < 0 then CHR ''-'' # str_nat (nat (- i)) else str_nat (nat i))"

text \<open>Python's \<open>sep.join(xs)\<close>.\<close>

fun join :: "string \<Rightarrow> string list \<Rightarrow> string" where
  "join sep [] = []"
| "join sep [x] = x"
| "join sep (x # y # ys) = x @ sep @ join sep (y # ys)"

definition elem_sep :: string where
  "elem_sep = '' & ''"

definition row_sep :: string where
  "row_sep = [CHR '' '', backslash, backslash, CHR '' '']"

definition bmatrix_open :: string where
  "bmatrix_open = backslash # ''begin{bmatrix} ''"

definition bmatrix_close :: string where
  "bmatrix_close = CHR '' '' # backslash # ''end{bmatrix}''"

subsection \<open>The function\<close>

text \<open>
  \<^verbatim>\<open>
  def array_to_LaTeX(arr):
      arr = arr.astype("str")
      nrow = arr.shape[0]
      rows = [" & ".join(arr[i,:].tolist()) for i in range(nrow)]
      return "\\begin{bmatrix} " + " \\\\ ".join(rows) + " \\end{bmatrix}"
  \<close>
  The array holds integers, as the script's own array does.  \<open>arr.shape[0]\<close> raises
  IndexError on a 0-d array, and \<open>arr[i,:]\<close> raises IndexError on a 1-d array.
\<close>

fun astype_str :: "int ndarray \<Rightarrow> string ndarray" where
  "astype_str (Array0 x) = Array0 (str_int x)"
| "astype_str (Array1 xs) = Array1 (map str_int xs)"
| "astype_str (Array2 c rs) = Array2 c (map (map str_int) rs)"

definition shape0 :: "'a ndarray \<Rightarrow> py_error + nat" where
  "shape0 arr = (case shape arr of [] \<Rightarrow> Inl IndexError | n # _ \<Rightarrow> Inr n)"

text \<open>\<open>arr[i,:].tolist()\<close>\<close>

fun row_tolist :: "'a ndarray \<Rightarrow> nat \<Rightarrow> py_error + 'a list" where
  "row_tolist (Array0 x) i = Inl IndexError"
| "row_tolist (Array1 xs) i = Inl IndexError"
| "row_tolist (Array2 c rs) i = (if i < length rs then Inr (rs ! i) else Inl IndexError)"

text \<open>The list comprehension, over the indices it is given; the first error ends it.\<close>

fun latex_rows :: "string ndarray \<Rightarrow> nat list \<Rightarrow> py_error + string list" where
  "latex_rows arr [] = Inr []"
| "latex_rows arr (i # is) =
     (case row_tolist arr i of
        Inl e \<Rightarrow> Inl e
      | Inr r \<Rightarrow> (case latex_rows arr is of
                   Inl e \<Rightarrow> Inl e
                 | Inr rows \<Rightarrow> Inr (join elem_sep r # rows)))"

definition array_to_LaTeX :: "int ndarray \<Rightarrow> py_error + string" where
  "array_to_LaTeX arr0 =
     (let arr = astype_str arr0 in
      case shape0 arr of
        Inl e \<Rightarrow> Inl e
      | Inr nrow \<Rightarrow>
          (case latex_rows arr [0..<nrow] of
             Inl e \<Rightarrow> Inl e
           | Inr rows \<Rightarrow> Inr (bmatrix_open @ join row_sep rows @ bmatrix_close)))"

text \<open>The script's own array \<open>A\<close>.\<close>

definition A_rows :: "int list list" where
  "A_rows = [[3, 4, 5], [6, 7, 9], [4, 5, 122]]"

definition A :: "int ndarray" where
  "A = Array2 3 A_rows"

text \<open>
  The script builds its array from a nested list (\<^verbatim>\<open>A = np.array([[3,4,5],[6,7,9],[4,5,122]])\<close>)
  and passes it on (\<^verbatim>\<open>print(array_to_LaTeX(A))\<close>).  \<open>np_array\<close> is that constructor on a nested
  list of integers: the empty list gives the 1-d array of shape \<open>(0,)\<close>, rows of one length
  give a 2-d array, and rows of differing lengths give no numeric array: \<open>np.array\<close> raises
  ValueError (numpy before 1.24 builds a 1-d array of row objects instead, on which the first
  statement of \<open>array_to_LaTeX\<close>, \<open>arr.astype("str")\<close>, raises ValueError).  Either way the run
  ends in ValueError before any text is built.
\<close>

definition rectangular :: "'a list list \<Rightarrow> bool" where
  "rectangular M \<longleftrightarrow> list_all (\<lambda>r. length r = length (hd M)) M"

definition np_array :: "int list list \<Rightarrow> py_error + int ndarray" where
  "np_array M =
     (if M = [] then Inr (Array1 [])
      else if rectangular M then Inr (Array2 (length (hd M)) M)
      else Inl ValueError)"

text \<open>\<open>array_to_LaTeX(np.array(M))\<close>: what the specification calls \<open>format(M)\<close>.\<close>

definition format_matrix :: "int list list \<Rightarrow> py_error + string" where
  "format_matrix M = (case np_array M of Inl e \<Rightarrow> Inl e | Inr arr \<Rightarrow> array_to_LaTeX arr)"

subsection \<open>What the specification calls a row, and counting separators\<close>

text \<open>The text of one row as the specification words it: the elements' texts joined.\<close>

definition row_text :: "int list \<Rightarrow> string" where
  "row_text r = join elem_sep (map str_int r)"

text \<open>The number of positions of \<open>s\<close> at which \<open>p\<close> occurs.\<close>

fun occurrences :: "string \<Rightarrow> string \<Rightarrow> nat" where
  "occurrences p [] = 0"
| "occurrences p (c # s) = (if take (length p) (c # s) = p then 1 else 0) + occurrences p s"

text \<open>Texts made of decimal digits and the minus sign only.\<close>

definition plain :: "string \<Rightarrow> bool" where
  "plain s \<longleftrightarrow> set s \<subseteq> set digits \<union> {CHR ''-''}"

text \<open>The text the specification gives for the script's array.\<close>

definition A_text :: string where
  "A_text = backslash # ''begin{bmatrix} 3 & 4 & 5 '' @ [backslash, backslash] @
            '' 6 & 7 & 9 '' @ [backslash, backslash] @ '' 4 & 5 & 122 '' @
            backslash # ''end{bmatrix}''"

section \<open>Post017: Hotelling's two-sample test\<close>

text \<open>
  \<^verbatim>\<open>
  def TwoSampleT2Test(X, Y):
      nx, p = X.shape
      ny, _ = Y.shape
      delta = np.mean(X, axis=0) - np.mean(Y, axis=0)
      Sx = np.cov(X, rowvar=False)
      Sy = np.cov(Y, rowvar=False)
      S_pooled = ((nx-1)*Sx + (ny-1)*Sy)/(nx+ny-2)

      t_squared = (nx*ny)/(nx+ny) * np.matmul(np.matmul(delta.transpose(), np.linalg.inv(S_pooled)), delta)
      statistic = t_squared * (nx+ny-p-1)/(p*(nx+ny-2))
      F = f(p, nx+ny-p-1)
      p_value = 1 - F.cdf(statistic)
      print(f"Test statistic: {statistic}\nDegrees of freedom: {p} and {nx+ny-p-1}\np-value: {p_value}")
      return statistic, p_value
  \<close>
  The model computes in exact arithmetic: a float is a \<^typ>\<open>real\<close>, so rounding is left out.
  A run of the function ends in one of three ways.  It raises (\<open>Raises\<close>), it returns
  (\<open>Returns\<close>), or it divides a float by zero: numpy then warns and goes on with \<open>inf\<close> and
  \<open>nan\<close>, values the reals do not have, and the model ends the run there with \<open>NonFinite\<close>,
  saying nothing about what follows.
\<close>

datatype 'a outcome = Raises py_error | NonFinite | Returns 'a

fun and_then :: "'a outcome \<Rightarrow> ('a \<Rightarrow> 'b outcome) \<Rightarrow> 'b outcome" where
  "and_then (Raises e) f = Raises e"
| "and_then NonFinite f = NonFinite"
| "and_then (Returns v) f = f v"

fun raising :: "py_error + 'a \<Rightarrow> 'a outcome" where
  "raising (Inl e) = Raises e"
| "raising (Inr v) = Returns v"

subsection \<open>Arrays: elementwise operations and broadcasting\<close>

fun ndim :: "'a ndarray \<Rightarrow> nat" where
  "ndim (Array0 x) = 0"
| "ndim (Array1 xs) = 1"
| "ndim (Array2 c rs) = 2"

fun nd_map :: "('a \<Rightarrow> 'b) \<Rightarrow> 'a ndarray \<Rightarrow> 'b ndarray" where
  "nd_map f (Array0 x) = Array0 (f x)"
| "nd_map f (Array1 xs) = Array1 (map f xs)"
| "nd_map f (Array2 c rs) = Array2 c (map (map f) rs)"

fun nd_elems :: "'a ndarray \<Rightarrow> 'a list" where
  "nd_elems (Array0 x) = [x]"
| "nd_elems (Array1 xs) = xs"
| "nd_elems (Array2 c rs) = concat rs"

text \<open>
  Broadcasting sees both operands with two dimensions (a missing leading dimension has
  size 1); two sizes go together when they are equal or one of them is 1, and the operand
  of size 1 is repeated.  The result has the larger number of dimensions.
\<close>

fun rows2 :: "'a ndarray \<Rightarrow> 'a list list" where
  "rows2 (Array0 x) = [[x]]"
| "rows2 (Array1 xs) = [xs]"
| "rows2 (Array2 c rs) = rs"

fun ncols2 :: "'a ndarray \<Rightarrow> nat" where
  "ncols2 (Array0 x) = 1"
| "ncols2 (Array1 xs) = length xs"
| "ncols2 (Array2 c rs) = c"

fun of_rows2 :: "nat \<Rightarrow> nat \<Rightarrow> 'a list list \<Rightarrow> 'a ndarray" where
  "of_rows2 0 c rs = Array0 (hd (hd rs))"
| "of_rows2 (Suc 0) c rs = Array1 (hd rs)"
| "of_rows2 (Suc (Suc d)) c rs = Array2 c rs"

definition broadcast_size :: "nat \<Rightarrow> nat \<Rightarrow> nat option" where
  "broadcast_size a b =
     (if a = b then Some a else if a = 1 then Some b else if b = 1 then Some a else None)"

definition stretch :: "nat \<Rightarrow> 'a list \<Rightarrow> 'a list" where
  "stretch n xs = (if length xs = n then xs else replicate n (hd xs))"

definition np_broadcast ::
  "('a \<Rightarrow> 'a \<Rightarrow> 'a) \<Rightarrow> 'a ndarray \<Rightarrow> 'a ndarray \<Rightarrow> py_error + 'a ndarray" where
  "np_broadcast f a b =
     (case broadcast_size (length (rows2 a)) (length (rows2 b)) of
        None \<Rightarrow> Inl ValueError
      | Some r \<Rightarrow>
          (case broadcast_size (ncols2 a) (ncols2 b) of
             None \<Rightarrow> Inl ValueError
           | Some c \<Rightarrow>
               Inr (of_rows2 (max (ndim a) (ndim b)) c
                     (map2 (map2 f)
                        (map (stretch c) (stretch r (rows2 a)))
                        (map (stretch c) (stretch r (rows2 b)))))))"

text \<open>
  An array divided by a Python integer.  Division by zero does not raise on a float array;
  it gives \<open>inf\<close> or \<open>nan\<close> in every element there is.
\<close>

definition nd_div_int :: "real ndarray \<Rightarrow> int \<Rightarrow> real ndarray outcome" where
  "nd_div_int a d =
     (if d = 0 \<and> nd_elems a \<noteq> [] then NonFinite
      else Returns (nd_map (\<lambda>v. v / of_int d) a))"

subsection \<open>Means and covariances\<close>

definition columns :: "nat \<Rightarrow> 'a list list \<Rightarrow> 'a list list" where
  "columns c rs = map (\<lambda>j. map (\<lambda>r. r ! j) rs) [0..<c]"

definition mean :: "real list \<Rightarrow> real" where
  "mean xs = sum_list xs / real (length xs)"

definition dot :: "real list \<Rightarrow> real list \<Rightarrow> real" where
  "dot xs ys = sum_list (map2 (*) xs ys)"

text \<open>
  \<open>np.mean(X, axis=0)\<close> on a 2-d array of \<open>c\<close> columns: the 1-d array of the column means.
  Without rows each mean is 0/0.
\<close>

definition np_mean_axis0 :: "nat \<Rightarrow> real list list \<Rightarrow> real ndarray outcome" where
  "np_mean_axis0 c rs =
     (if rs = [] \<and> 0 < c then NonFinite else Returns (Array1 (map mean (columns c rs))))"

text \<open>
  \<open>np.cov(X, rowvar=False)\<close> on a 2-d array of \<open>n\<close> rows and \<open>c\<close> columns.  The columns are the
  variables.  numpy subtracts each variable's mean, multiplies the matrix of deviations by
  its transpose, scales by \<open>1 / (n - 1)\<close>, and squeezes the result: for one variable the 1 x 1
  matrix becomes a 0-d array.  Without columns the result is the array of shape \<open>(0, 0)\<close>;
  with fewer than two rows the scale is \<open>1 / 0\<close>.
\<close>

definition np_cov :: "nat \<Rightarrow> real list list \<Rightarrow> real ndarray outcome" where
  "np_cov c rs =
     (if c = 0 then Returns (Array2 0 [])
      else if length rs \<le> 1 then NonFinite
      else
        let dev = map (\<lambda>xs. map (\<lambda>x. x - mean xs) xs) (columns c rs);
            cm = map (\<lambda>a. map (\<lambda>b. dot a b * (1 / real (length rs - 1))) dev) dev
        in Returns (if c = 1 then Array0 (hd (hd cm)) else Array2 c cm))"

subsection \<open>Matrix product and inverse\<close>

fun nd_transpose :: "'a ndarray \<Rightarrow> 'a ndarray" where
  "nd_transpose (Array0 x) = Array0 x"
| "nd_transpose (Array1 xs) = Array1 xs"
| "nd_transpose (Array2 c rs) = Array2 (length rs) (columns c rs)"

text \<open>\<open>np.matmul\<close>: a 1-d operand is a row on the left and a column on the right.\<close>

fun np_matmul :: "real ndarray \<Rightarrow> real ndarray \<Rightarrow> py_error + real ndarray" where
  "np_matmul (Array1 xs) (Array1 ys) =
     (if length xs = length ys then Inr (Array0 (dot xs ys)) else Inl ValueError)"
| "np_matmul (Array1 xs) (Array2 c rs) =
     (if length xs = length rs then Inr (Array1 (map (dot xs) (columns c rs)))
      else Inl ValueError)"
| "np_matmul (Array2 c rs) (Array1 ys) =
     (if c = length ys then Inr (Array1 (map (\<lambda>r. dot r ys) rs)) else Inl ValueError)"
| "np_matmul (Array2 c rs) (Array2 c' rs') =
     (if c = length rs' then Inr (Array2 c' (map (\<lambda>r. map (dot r) (columns c' rs')) rs))
      else Inl ValueError)"
| "np_matmul (Array0 x) b = Inl ValueError"
| "np_matmul a (Array0 y) = Inl ValueError"

text \<open>
  \<open>np.linalg.inv\<close> raises LinAlgError on an array of fewer than two dimensions, on a matrix
  that is not square and on a singular one.  In exact arithmetic the inverse does not depend
  on how it is computed; here it is computed by Gauss-Jordan elimination on the rows of the
  matrix extended by the rows of the identity.
\<close>

definition identity_rows :: "nat \<Rightarrow> real list list" where
  "identity_rows n = map (\<lambda>i. map (\<lambda>j. if i = j then 1 else 0) [0..<n]) [0..<n]"

definition find_pivot :: "nat \<Rightarrow> real list list \<Rightarrow> nat option" where
  "find_pivot k st = find (\<lambda>i. st ! i ! k \<noteq> 0) [k..<length st]"

definition swap_rows :: "nat \<Rightarrow> nat \<Rightarrow> 'a list \<Rightarrow> 'a list" where
  "swap_rows i j st = st[i := st ! j, j := st ! i]"

definition eliminate :: "nat \<Rightarrow> real list list \<Rightarrow> real list list" where
  "eliminate k st =
     (let pr = map (\<lambda>v. v / (st ! k ! k)) (st ! k)
      in map (\<lambda>i. if i = k then pr else map2 (\<lambda>a b. a - st ! i ! k * b) (st ! i) pr)
           [0..<length st])"

fun gauss_jordan :: "nat list \<Rightarrow> real list list \<Rightarrow> real list list option" where
  "gauss_jordan [] st = Some st"
| "gauss_jordan (k # ks) st =
     (case find_pivot k st of
        None \<Rightarrow> None
      | Some i \<Rightarrow> gauss_jordan ks (eliminate k (swap_rows k i st)))"

fun linalg_inv :: "real ndarray \<Rightarrow> py_error + real ndarray" where
  "linalg_inv (Array0 x) = Inl LinAlgError"
| "linalg_inv (Array1 xs) = Inl LinAlgError"
| "linalg_inv (Array2 c rs) =
     (if length rs \<noteq> c then Inl LinAlgError
      else case gauss_jordan [0..<c] (map2 (@) rs (identity_rows c)) of
             None \<Rightarrow> Inl LinAlgError
           | Some st \<Rightarrow> Inr (Array2 c (map (drop c) st)))"

subsection \<open>The F distribution\<close>

text \<open>
  \<open>f(dfn, dfd).cdf(x)\<close> of scipy: \<open>nan\<close> when a parameter is not positive, 0 for \<open>x \<le> 0\<close>
  (outside the support), and otherwise the value of the special function
  \<open>fdtr(dfn, dfd, x)\<close>, which the model does not compute: it keeps the arguments.
\<close>

datatype prob = Exact real | Fdtr int int real | One_minus_fdtr int int real

fun one_minus :: "prob \<Rightarrow> prob" where
  "one_minus (Exact v) = Exact (1 - v)"
| "one_minus (Fdtr a b x) = One_minus_fdtr a b x"
| "one_minus (One_minus_fdtr a b x) = Fdtr a b x"

definition f_cdf :: "int \<Rightarrow> int \<Rightarrow> real ndarray \<Rightarrow> prob ndarray outcome" where
  "f_cdf dfn dfd a =
     (if (dfn \<le> 0 \<or> dfd \<le> 0) \<and> nd_elems a \<noteq> [] then NonFinite
      else Returns (nd_map (\<lambda>x. if x \<le> 0 then Exact 0 else Fdtr dfn dfd x) a))"

subsection \<open>The function\<close>

text \<open>
  What a run that returns has produced: the returned pair, and the two degrees of freedom
  of the printed summary.
\<close>

record t2_result =
  statistic :: "real ndarray"
  p_value :: "prob ndarray"
  printed_df :: "int \<times> int"

text \<open>
  \<open>np.mean(X, axis=0) - np.mean(Y, axis=0)\<close> for \<open>X\<close> of \<open>p\<close> and \<open>Y\<close> of \<open>q\<close> columns.  The two
  means have \<open>p\<close> and \<open>q\<close> elements whatever their values are, so the subtraction raises
  ValueError on sizes that do not go together even where a mean is 0/0.
\<close>

definition means_difference ::
  "nat \<Rightarrow> real list list \<Rightarrow> nat \<Rightarrow> real list list \<Rightarrow> real ndarray outcome" where
  "means_difference p xs q ys =
     (if broadcast_size p q = None then Raises ValueError
      else
        and_then (np_mean_axis0 p xs) (\<lambda>mx.
        and_then (np_mean_axis0 q ys) (\<lambda>my.
          raising (np_broadcast (-) mx my))))"

text \<open>\<open>Sx\<close>, \<open>Sy\<close> and \<open>S_pooled = ((nx-1)*Sx + (ny-1)*Sy)/(nx+ny-2)\<close>.\<close>

definition pooled_covariance ::
  "nat \<Rightarrow> real list list \<Rightarrow> nat \<Rightarrow> real list list \<Rightarrow> real ndarray outcome" where
  "pooled_covariance p xs q ys =
     (let nx = int (length xs); ny = int (length ys) in
      and_then (np_cov p xs) (\<lambda>Sx.
      and_then (np_cov q ys) (\<lambda>Sy.
      and_then (raising (np_broadcast (+) (nd_map (\<lambda>v. of_int (nx - 1) * v) Sx)
                                          (nd_map (\<lambda>v. of_int (ny - 1) * v) Sy))) (\<lambda>S.
        nd_div_int S (nx + ny - 2)))))"

text \<open>\<open>np.matmul(np.matmul(delta.transpose(), np.linalg.inv(S_pooled)), delta)\<close>\<close>

definition quadratic_form :: "real ndarray \<Rightarrow> real ndarray \<Rightarrow> real ndarray outcome" where
  "quadratic_form delta S_pooled =
     and_then (raising (linalg_inv S_pooled)) (\<lambda>S_inv.
     and_then (raising (np_matmul (nd_transpose delta) S_inv)) (\<lambda>m.
       raising (np_matmul m delta)))"

text \<open>
  The body, once \<open>nx, p = X.shape\<close> and \<open>ny, _ = Y.shape\<close> have succeeded.  In the statement
  that computes \<open>t_squared\<close> the quotient \<open>(nx*ny)/(nx+ny)\<close> of two Python integers comes
  first, and raises ZeroDivisionError when \<open>nx + ny\<close> is 0.
\<close>

definition t2_body ::
  "nat \<Rightarrow> real list list \<Rightarrow> nat \<Rightarrow> real list list \<Rightarrow> t2_result outcome" where
  "t2_body p xs q ys =
     (let nx = int (length xs); ny = int (length ys) in
      and_then (means_difference p xs q ys) (\<lambda>delta.
      and_then (pooled_covariance p xs q ys) (\<lambda>S_pooled.
      if nx + ny = 0 then Raises ZeroDivisionError
      else
        and_then (quadratic_form delta S_pooled) (\<lambda>quad.
        let t_squared = nd_map (\<lambda>v. of_int (nx * ny) / of_int (nx + ny) * v) quad in
        and_then (nd_div_int (nd_map (\<lambda>v. v * of_int (nx + ny - int p - 1)) t_squared)
                             (int p * (nx + ny - 2))) (\<lambda>stat.
        and_then (f_cdf (int p) (nx + ny - int p - 1) stat) (\<lambda>cdf.
          Returns \<lparr> statistic = stat, p_value = nd_map one_minus cdf,
                    printed_df = (int p, nx + ny - int p - 1) \<rparr>))))))"

fun TwoSampleT2Test :: "real ndarray \<Rightarrow> real ndarray \<Rightarrow> t2_result outcome" where
  "TwoSampleT2Test (Array2 p xs) (Array2 q ys) = t2_body p xs q ys"
| "TwoSampleT2Test X Y = Raises ValueError"

subsection \<open>Names for intermediate values, and sample data\<close>

text \<open>
  The deviations from the column means, the covariance matrix before it is squeezed, and
  the pooled matrix, as \<open>np_cov\<close> and \<open>pooled_covariance\<close> compute them.
\<close>

definition deviations :: "nat \<Rightarrow> real list list \<Rightarrow> real list list" where
  "deviations c rs = map (\<lambda>xs. map (\<lambda>x. x - mean xs) xs) (columns c rs)"

definition cov_rows :: "nat \<Rightarrow> real list list \<Rightarrow> real list list" where
  "cov_rows c rs =
     map (\<lambda>a. map (\<lambda>b. dot a b * (1 / real (length rs - 1))) (deviations c rs))
       (deviations c rs)"

definition pooled_rows :: "nat \<Rightarrow> real list list \<Rightarrow> real list list \<Rightarrow> real list list" where
  "pooled_rows p xs ys =
     map (map (\<lambda>v. v / of_int (int (length xs) + int (length ys) - 2)))
       (map2 (map2 (+))
          (map (map (\<lambda>v. of_int (int (length xs) - 1) * v)) (cov_rows p xs))
          (map (map (\<lambda>v. of_int (int (length ys) - 1) * v)) (cov_rows p ys)))"

text \<open>Two samples of three rows and two columns, and samples of one and of three columns.\<close>

definition sample_X :: "real list list" where
  "sample_X = [[0, 0], [1, 0], [0, 1]]"

definition sample_Y :: "real list list" where
  "sample_Y = [[1, 1], [2, 1], [1, 2]]"

definition sample_X1 :: "real list list" where
  "sample_X1 = [[0], [1], [3]]"

definition sample_Y1 :: "real list list" where
  "sample_Y1 = [[1], [2], [4]]"

definition sample_Y3 :: "real list list" where
  "sample_Y3 = [[1, 1, 0], [2, 1, 0], [1, 2, 1]]"

subsection \<open>The formulas of the specification\<close>

text \<open>
  The quantities the specification names, written over the entries \<open>xs ! i ! j\<close> of the
  samples (row \<open>i\<close>, column \<open>j\<close>): the column means, the sample covariances with the divisor
  \<open>n - 1\<close>, the pooled covariance, Hotelling's statistic for a given inverse \<open>B\<close> of the pooled
  matrix, its F form, and the upper tail \<open>1 - CDF_F\<close> of the F distribution.
\<close>

definition col_mean :: "real list list \<Rightarrow> nat \<Rightarrow> real" where
  "col_mean xs j = (\<Sum>i<length xs. xs ! i ! j) / real (length xs)"

definition sample_cov :: "real list list \<Rightarrow> nat \<Rightarrow> nat \<Rightarrow> real" where
  "sample_cov xs j k =
     (\<Sum>i<length xs. (xs ! i ! j - col_mean xs j) * (xs ! i ! k - col_mean xs k))
       / (real (length xs) - 1)"

definition S_pooled :: "real list list \<Rightarrow> real list list \<Rightarrow> nat \<Rightarrow> nat \<Rightarrow> real" where
  "S_pooled xs ys j k =
     ((real (length xs) - 1) * sample_cov xs j k + (real (length ys) - 1) * sample_cov ys j k)
       / (real (length xs) + real (length ys) - 2)"

definition S_pooled_matrix :: "nat \<Rightarrow> real list list \<Rightarrow> real list list \<Rightarrow> real list list" where
  "S_pooled_matrix p xs ys = map (\<lambda>j. map (\<lambda>k. S_pooled xs ys j k) [0..<p]) [0..<p]"

definition T_squared ::
  "nat \<Rightarrow> real list list \<Rightarrow> real list list \<Rightarrow> real list list \<Rightarrow> real" where
  "T_squared p xs ys B =
     (real (length xs) * real (length ys)) / (real (length xs) + real (length ys))
       * (\<Sum>j<p. \<Sum>k<p. (col_mean xs j - col_mean ys j) * (B ! j ! k)
                           * (col_mean xs k - col_mean ys k))"

definition F_statistic ::
  "nat \<Rightarrow> real list list \<Rightarrow> real list list \<Rightarrow> real list list \<Rightarrow> real" where
  "F_statistic p xs ys B =
     T_squared p xs ys B * (real (length xs) + real (length ys) - real p - 1)
       / (real p * (real (length xs) + real (length ys) - 2))"

definition upper_tail :: "int \<Rightarrow> int \<Rightarrow> real \<Rightarrow> prob" where
  "upper_tail dfn dfd x = (if x \<le> 0 then Exact 1 else One_minus_fdtr dfn dfd x)"

definition sample_cov_matrix :: "nat \<Rightarrow> real list list \<Rightarrow> real list list" where
  "sample_cov_matrix p xs = map (\<lambda>j. map (\<lambda>k. sample_cov xs j k) [0..<p]) [0..<p]"

text \<open>
  Invertibility.  \<open>B\<close> is the inverse of the \<open>n x n\<close> matrix \<open>M\<close> when both are square and
  both products \<open>M B\<close> and \<open>B M\<close> are the identity matrix.
\<close>

definition square :: "nat \<Rightarrow> real list list \<Rightarrow> bool" where
  "square n M \<longleftrightarrow> length M = n \<and> list_all (\<lambda>r. length r = n) M"

definition mat_mult :: "nat \<Rightarrow> real list list \<Rightarrow> real list list \<Rightarrow> real list list" where
  "mat_mult n M N = map (\<lambda>i. map (\<lambda>k. \<Sum>j<n. M ! i ! j * N ! j ! k) [0..<n]) [0..<n]"

definition inverse_of :: "nat \<Rightarrow> real list list \<Rightarrow> real list list \<Rightarrow> bool" where
  "inverse_of n M B \<longleftrightarrow>
     square n M \<and> square n B
     \<and> mat_mult n M B = identity_rows n \<and> mat_mult n B M = identity_rows n"

subsection \<open>The elimination as a linear system\<close>

text \<open>
  To show that \<open>linalg_inv\<close> returns the inverse, the rows that \<open>gauss_jordan\<close> works on are
  read as a homogeneous linear system in the unknowns \<open>z 0, ..., z (w - 1)\<close>: row \<open>r\<close> stands
  for the equation \<open>row_sum w r z = 0\<close>.  Exchanging two rows, scaling the pivot row and
  subtracting a multiple of it from another row leave the solutions of the system as they
  are.  A state is \<open>reduced k\<close> once its first \<open>k\<close> columns are those of the identity matrix.
\<close>

definition row_sum :: "nat \<Rightarrow> real list \<Rightarrow> (nat \<Rightarrow> real) \<Rightarrow> real" where
  "row_sum w r z = (\<Sum>c<w. r ! c * z c)"

definition solves :: "nat \<Rightarrow> real list list \<Rightarrow> (nat \<Rightarrow> real) \<Rightarrow> bool" where
  "solves w st z \<longleftrightarrow> (\<forall>i<length st. row_sum w (st ! i) z = 0)"

definition rect :: "nat \<Rightarrow> nat \<Rightarrow> real list list \<Rightarrow> bool" where
  "rect n w st \<longleftrightarrow> length st = n \<and> (\<forall>i<n. length (st ! i) = w)"

definition reduced :: "nat \<Rightarrow> real list list \<Rightarrow> bool" where
  "reduced k st \<longleftrightarrow> (\<forall>i<length st. \<forall>j<k. st ! i ! j = (if i = j then 1 else 0))"

text \<open>The state \<open>linalg_inv\<close> starts from: each row of the matrix followed by a row of the identity.\<close>

definition augmented :: "nat \<Rightarrow> real list list \<Rightarrow> real list list" where
  "augmented n M = map2 (@) M (identity_rows n)"

section \<open>Properties of array_to_LaTeX\<close>

lemma latex_rows_Array2:
  "\<forall>i \<in> set is. i < length rs \<Longrightarrow>
   latex_rows (Array2 c rs) is = Inr (map (\<lambda>i. join elem_sep (rs ! i)) is)"
  by (induction "is") simp_all

lemma latex_rows_all:
  "latex_rows (Array2 c rs) [0..<length rs] = Inr (map (join elem_sep) rs)"
proof -
  have "map (\<lambda>i. join elem_sep (rs ! i)) [0..<length rs] = map (join elem_sep) rs"
    by (rule nth_equalityI) simp_all
  then show ?thesis
    by (simp add: latex_rows_Array2)
qed

lemma array_to_LaTeX_Array2:
  "array_to_LaTeX (Array2 c rs) =
     Inr (bmatrix_open @ join row_sep (map row_text rs) @ bmatrix_close)"
  using latex_rows_all [of c "map (map str_int) rs"]
  by (simp add: array_to_LaTeX_def shape0_def row_text_def [abs_def] comp_def)

subsection \<open>Decimal texts\<close>

lemma digit_in: "d < 10 \<Longrightarrow> digits ! d \<in> set digits"
  by (rule nth_mem) (simp add: digits_def)

lemma str_nat_digits: "str_nat n \<noteq> [] \<and> set (str_nat n) \<subseteq> set digits"
proof (induction n rule: str_nat.induct)
  case (1 n)
  have eq: "str_nat n = (if n < 10 then [digits ! n]
                else str_nat (n div 10) @ [digits ! (n mod 10)])"
    by (rule str_nat.simps)
  show ?case
  proof (cases "n < 10")
    case True
    then have "str_nat n = [digits ! n]" using eq by simp
    then show ?thesis using digit_in [OF True] by simp
  next
    case False
    then have e: "str_nat n = str_nat (n div 10) @ [digits ! (n mod 10)]" using eq by simp
    have "n mod 10 < 10" by simp
    from digit_in [OF this] 1 [OF False] show ?thesis
      unfolding e by simp
  qed
qed

lemma plain_str_int: "plain (str_int i)"
  using str_nat_digits [of "nat i"] str_nat_digits [of "nat (- i)"]
  by (auto simp: plain_def str_int_def)

lemma str_int_nonempty: "str_int i \<noteq> []"
  using str_nat_digits [of "nat i"] by (simp add: str_int_def)

lemma plain_chars:
  "plain s \<Longrightarrow> CHR '' '' \<notin> set s \<and> CHR ''&'' \<notin> set s \<and> backslash \<notin> set s"
  by (auto simp: plain_def digits_def backslash_def)

text \<open>A pattern whose first character does not occur in \<open>s\<close> does not start inside \<open>s\<close>.\<close>

lemma occurrences_skip:
  "a \<notin> set s \<Longrightarrow> occurrences (a # p) (s @ t) = occurrences (a # p) t"
  by (induction s) auto

lemma occurrences_elem_sep_here:
  "t = [] \<or> hd t \<noteq> CHR ''&'' \<Longrightarrow>
   occurrences elem_sep (elem_sep @ t) = Suc (occurrences elem_sep t)"
  by (cases t) (auto simp: elem_sep_def)

lemma join_plain_hd:
  "\<forall>x \<in> set xs. plain x \<and> x \<noteq> [] \<Longrightarrow>
   join elem_sep xs = [] \<or> hd (join elem_sep xs) \<noteq> CHR ''&''"
proof (cases xs)
  case Nil then show ?thesis by simp
next
  case (Cons x ys)
  assume a: "\<forall>x \<in> set xs. plain x \<and> x \<noteq> []"
  with Cons have "plain x" "x \<noteq> []" by auto
  then have "hd x \<noteq> CHR ''&''" using plain_chars [of x] by (cases x) auto
  moreover have "hd (join elem_sep xs) = hd x"
    using Cons \<open>x \<noteq> []\<close> by (cases ys) auto
  ultimately show ?thesis by simp
qed

lemma occurrences_elem_sep_join:
  "\<forall>x \<in> set xs. plain x \<and> x \<noteq> [] \<Longrightarrow>
   occurrences elem_sep (join elem_sep xs) = length xs - 1"
proof (induction xs rule: induct_list012)
  case 1 then show ?case by simp
next
  case (2 x)
  then have "CHR '' '' \<notin> set x" using plain_chars by simp
  from occurrences_skip [OF this, of "''& ''" "[]"] show ?case by (simp add: elem_sep_def)
next
  case (3 x y ys)
  then have sp: "CHR '' '' \<notin> set x" using plain_chars by simp
  have hd: "join elem_sep (y # ys) = [] \<or> hd (join elem_sep (y # ys)) \<noteq> CHR ''&''"
    using 3(3) by (intro join_plain_hd) simp
  have "occurrences elem_sep (join elem_sep (x # y # ys))
      = occurrences elem_sep (elem_sep @ join elem_sep (y # ys))"
    using occurrences_skip [OF sp, of "''& ''"] by (simp add: elem_sep_def)
  also have "\<dots> = Suc (occurrences elem_sep (join elem_sep (y # ys)))"
    by (rule occurrences_elem_sep_here [OF hd])
  also have "\<dots> = Suc (length (y # ys) - 1)"
    using 3 by simp
  finally show ?case by simp
qed

lemma occurrences_row_text: "occurrences elem_sep (row_text r) = length r - 1"
  using occurrences_elem_sep_join [of "map str_int r"]
  by (simp add: row_text_def plain_str_int str_int_nonempty)

subsection \<open>Counting the row separator\<close>

lemma occurrences_row_sep_skip:
  "backslash \<notin> set a \<Longrightarrow> t = [] \<or> hd t \<noteq> backslash \<Longrightarrow>
   occurrences row_sep (a @ t) = occurrences row_sep t"
proof (induction a)
  case Nil then show ?case by simp
next
  case (Cons c a)
  have "take (length row_sep) (c # a @ t) \<noteq> row_sep"
  proof (cases a)
    case Nil
    with Cons.prems show ?thesis by (cases t) (auto simp: row_sep_def)
  next
    case (Cons d a')
    with Cons.prems show ?thesis by (auto simp: row_sep_def)
  qed
  with Cons show ?case by simp
qed

lemma occurrences_row_sep_here:
  "t = [] \<or> hd t \<noteq> backslash \<Longrightarrow>
   occurrences row_sep (row_sep @ t) = Suc (occurrences row_sep t)"
  by (cases t) (auto simp: row_sep_def backslash_def)

lemma join_row_sep_hd:
  "\<forall>x \<in> set xs. backslash \<notin> set x \<Longrightarrow>
   hd (join row_sep xs @ bmatrix_close) \<noteq> backslash"
proof (induction xs rule: induct_list012)
  case 1 then show ?case by (simp add: bmatrix_close_def backslash_def)
next
  case (2 x) then show ?case by (cases x) (auto simp: bmatrix_close_def backslash_def)
next
  case (3 x y zs) then show ?case by (cases x) (auto simp: row_sep_def backslash_def)
qed

lemma occurrences_row_sep_close: "occurrences row_sep bmatrix_close = 0"
  by (simp add: row_sep_def bmatrix_close_def backslash_def)

lemma occurrences_row_sep_join:
  "\<forall>x \<in> set xs. backslash \<notin> set x \<Longrightarrow>
   occurrences row_sep (join row_sep xs @ bmatrix_close) = length xs - 1"
proof (induction xs rule: induct_list012)
  case 1 then show ?case by (simp add: occurrences_row_sep_close)
next
  case (2 x)
  then have "backslash \<notin> set x" by simp
  from occurrences_row_sep_skip [OF this, of bmatrix_close] show ?case
    by (simp add: occurrences_row_sep_close) (simp add: bmatrix_close_def backslash_def)
next
  case (3 x y zs)
  then have x: "backslash \<notin> set x" by simp
  have hd: "hd (join row_sep (y # zs) @ bmatrix_close) \<noteq> backslash"
    using 3(3) by (intro join_row_sep_hd) simp
  have "occurrences row_sep (join row_sep (x # y # zs) @ bmatrix_close)
      = occurrences row_sep (x @ (row_sep @ join row_sep (y # zs) @ bmatrix_close))"
    by simp
  also have "\<dots> = occurrences row_sep (row_sep @ join row_sep (y # zs) @ bmatrix_close)"
    by (rule occurrences_row_sep_skip [OF x]) (simp add: row_sep_def backslash_def)
  also have "\<dots> = Suc (occurrences row_sep (join row_sep (y # zs) @ bmatrix_close))"
    using hd by (intro occurrences_row_sep_here) simp
  also have "\<dots> = Suc (length (y # zs) - 1)"
    using 3 by simp
  finally show ?case by simp
qed

lemma occurrences_row_sep_open:
  "hd t \<noteq> backslash \<Longrightarrow> occurrences row_sep (bmatrix_open @ t) = occurrences row_sep t"
proof -
  assume h: "hd t \<noteq> backslash"
  have "backslash \<notin> set ''begin{bmatrix} ''" by (simp add: backslash_def)
  from occurrences_row_sep_skip [OF this, of t] h
  show ?thesis by (simp add: bmatrix_open_def) (simp add: row_sep_def backslash_def)
qed

lemma join_elem_sep_no_backslash:
  "\<forall>x \<in> set xs. backslash \<notin> set x \<Longrightarrow> backslash \<notin> set (join elem_sep xs)"
  by (induction xs rule: induct_list012) (auto simp: elem_sep_def backslash_def)

lemma row_text_no_backslash: "backslash \<notin> set (row_text r)"
  unfolding row_text_def
  by (rule join_elem_sep_no_backslash) (use plain_chars plain_str_int in auto)

lemma occurrences_row_sep_rows:
  "occurrences row_sep (bmatrix_open @ join row_sep (map row_text rs) @ bmatrix_close)
     = length rs - 1"
proof -
  have nb: "\<forall>x \<in> set (map row_text rs). backslash \<notin> set x"
    by (simp add: row_text_no_backslash)
  from occurrences_row_sep_open [OF join_row_sep_hd [OF nb]]
       occurrences_row_sep_join [OF nb]
  show ?thesis by simp
qed

subsection \<open>The text of a formatted matrix\<close>

text \<open>
  C2: on a 2-d array the function returns the opening text, the rows joined by the row
  separator, and the closing text, each row being its elements' decimal texts joined by the
  element separator; on the script's array \<open>A\<close> that is
  \<^verbatim>\<open>\begin{bmatrix} 3 & 4 & 5 \\ 6 & 7 & 9 \\ 4 & 5 & 122 \end{bmatrix}\<close>.
\<close>

theorem format_exact:
  "array_to_LaTeX (Array2 c rs) =
     Inr (bmatrix_open @ join row_sep (map (\<lambda>r. join elem_sep (map str_int r)) rs)
          @ bmatrix_close)
   \<and> array_to_LaTeX A = Inr A_text"
proof
  show "array_to_LaTeX (Array2 c rs) =
     Inr (bmatrix_open @ join row_sep (map (\<lambda>r. join elem_sep (map str_int r)) rs)
          @ bmatrix_close)"
    by (simp add: array_to_LaTeX_Array2 row_text_def [abs_def])
  show "array_to_LaTeX A = Inr A_text"
    by (simp add: A_def A_rows_def A_text_def array_to_LaTeX_Array2 row_text_def str_int_def
        str_nat.simps digits_def elem_sep_def row_sep_def bmatrix_open_def bmatrix_close_def)
qed

text \<open>
  C4, as stated, fails: the array of shape \<open>(0, 0)\<close> is formatted, to
  \<^verbatim>\<open>\begin{bmatrix}  \end{bmatrix}\<close>; nothing is raised.
\<close>

theorem format_empty_counterexample:
  "array_to_LaTeX (Array2 0 []) =
     Inr (backslash # ''begin{bmatrix}  '' @ backslash # ''end{bmatrix}'')"
  by (simp add: array_to_LaTeX_Array2 bmatrix_open_def bmatrix_close_def)

text \<open>
  C4, amended: a matrix that is not rectangular is rejected, an empty one is not.  For every
  nested list whose rows differ in length the call fails with ValueError (what the
  specification calls InvalidInput) and no text is returned.  An empty matrix is formatted:
  with no rows (the empty list, or an array of shape \<open>(0, c)\<close>) to the opening text directly
  followed by the closing text, and with \<open>r \<ge> 1\<close> rows of no elements to the opening text,
  \<open>r\<close> empty segments joined by the row separator, and the closing text.
\<close>

theorem format_rejects_ragged_only:
  "(\<not> rectangular M \<longrightarrow> format_matrix M = Inl ValueError)
   \<and> format_matrix [] = Inr (bmatrix_open @ bmatrix_close)
   \<and> array_to_LaTeX (Array2 c []) = Inr (bmatrix_open @ bmatrix_close)
   \<and> format_matrix (replicate (Suc r) []) =
        Inr (bmatrix_open @ join row_sep (replicate (Suc r) []) @ bmatrix_close)"
proof (intro conjI impI)
  assume "\<not> rectangular M"
  moreover from this have "M \<noteq> []" by (auto simp: rectangular_def)
  ultimately show "format_matrix M = Inl ValueError"
    by (simp add: format_matrix_def np_array_def)
next
  show "format_matrix [] = Inr (bmatrix_open @ bmatrix_close)"
    by (simp add: format_matrix_def np_array_def array_to_LaTeX_def shape0_def)
next
  show "array_to_LaTeX (Array2 c []) = Inr (bmatrix_open @ bmatrix_close)"
    by (simp add: array_to_LaTeX_Array2)
next
  have "rectangular (replicate (Suc r) ([] :: int list))"
    by (simp add: rectangular_def list_all_iff)
  then show "format_matrix (replicate (Suc r) []) =
        Inr (bmatrix_open @ join row_sep (replicate (Suc r) []) @ bmatrix_close)"
    by (simp add: format_matrix_def np_array_def array_to_LaTeX_Array2 row_text_def
             elem_sep_def del: replicate.simps)
qed

theorem format_rejects_ragged_only_witness:
  "\<not> rectangular [[1, 2], [3 :: int]] \<and> format_matrix [[1, 2], [3]] = Inl ValueError"
proof -
  have h: "\<not> rectangular [[1, 2], [3 :: int]]" by (simp add: rectangular_def)
  from format_rejects_ragged_only [of "[[1, 2], [3]]"] h show ?thesis by blast
qed

text \<open>
  C8, as stated, fails on a rectangular array without rows: the array of shape \<open>(0, 3)\<close> is
  formatted to the opening text followed by the closing text, which holds the row separator
  0 times, and \<open>r - 1\<close> is \<open>-1\<close>.
\<close>

theorem separator_counts_counterexample:
  "wf_array (Array2 3 ([] :: int list list))
   \<and> array_to_LaTeX (Array2 3 []) = Inr (bmatrix_open @ bmatrix_close)
   \<and> int (occurrences row_sep (bmatrix_open @ bmatrix_close))
        \<noteq> int (length ([] :: int list list)) - 1"
  using occurrences_row_sep_rows [of "[]"] by (simp add: array_to_LaTeX_Array2)

text \<open>
  C8, amended: for every rectangular array of \<open>r\<close> rows and \<open>c\<close> columns, the list \<open>rows\<close> the
  function builds has \<open>r\<close> segments; the returned text holds the row separator exactly
  \<open>r - 1\<close> times when \<open>r \<ge> 1\<close> and not at all when \<open>r = 0\<close>; each segment holds the element
  separator exactly \<open>c - 1\<close> times when \<open>c \<ge> 1\<close> and not at all when \<open>c = 0\<close>.
\<close>

theorem separator_counts:
  assumes "wf_array (Array2 c rs)"
  shows "\<exists>rows s. latex_rows (astype_str (Array2 c rs)) [0..<length rs] = Inr rows
           \<and> array_to_LaTeX (Array2 c rs) = Inr s
           \<and> s = bmatrix_open @ join row_sep rows @ bmatrix_close
           \<and> length rows = length rs
           \<and> (\<forall>seg \<in> set rows. int (occurrences elem_sep seg) = max 0 (int c - 1))
           \<and> int (occurrences row_sep s) = max 0 (int (length rs) - 1)"
proof -
  let ?rows = "map row_text rs"
  have 1: "latex_rows (astype_str (Array2 c rs)) [0..<length rs] = Inr ?rows"
    using latex_rows_all [of c "map (map str_int) rs"]
    by (simp add: row_text_def [abs_def] comp_def)
  have 2: "array_to_LaTeX (Array2 c rs) = Inr (bmatrix_open @ join row_sep ?rows @ bmatrix_close)"
    by (rule array_to_LaTeX_Array2)
  have n: "int (k - 1) = max 0 (int k - 1)" for k :: nat
    by (cases k) simp_all
  have 3: "\<forall>seg \<in> set ?rows. int (occurrences elem_sep seg) = max 0 (int c - 1)"
    using assms by (auto simp: occurrences_row_text list_all_iff n)
  have 4: "int (occurrences row_sep (bmatrix_open @ join row_sep ?rows @ bmatrix_close))
             = max 0 (int (length rs) - 1)"
    by (simp only: occurrences_row_sep_rows n)
  from 1 2 3 4 show ?thesis by simp
qed

theorem separator_counts_witness:
  "wf_array (Array2 3 A_rows)
   \<and> (\<exists>rows s. latex_rows (astype_str (Array2 3 A_rows)) [0..<length A_rows] = Inr rows
           \<and> array_to_LaTeX (Array2 3 A_rows) = Inr s
           \<and> s = bmatrix_open @ join row_sep rows @ bmatrix_close
           \<and> length rows = length A_rows
           \<and> (\<forall>seg \<in> set rows. int (occurrences elem_sep seg) = max 0 (int 3 - 1))
           \<and> int (occurrences row_sep s) = max 0 (int (length A_rows) - 1))"
proof -
  have h1: "wf_array (Array2 3 A_rows)" by (simp add: A_rows_def)
  from separator_counts [OF h1] h1 show ?thesis by blast
qed

section \<open>Properties of TwoSampleT2Test\<close>

subsection \<open>Outcomes\<close>


lemma and_then_NonFinite:
  "and_then m f = NonFinite \<longleftrightarrow> m = NonFinite \<or> (\<exists>v. m = Returns v \<and> f v = NonFinite)"
  by (cases m) simp_all

lemma and_then_Raises:
  "and_then m f = Raises e \<longleftrightarrow> m = Raises e \<or> (\<exists>v. m = Returns v \<and> f v = Raises e)"
  by (cases m) simp_all

lemma raising_NonFinite [simp]: "raising x \<noteq> NonFinite"
  by (cases x) simp_all

lemma raising_Raises [simp]: "raising x = Raises e \<longleftrightarrow> x = Inl e"
  by (cases x) simp_all

lemma raising_Returns [simp]: "raising x = Returns v \<longleftrightarrow> x = Inr v"
  by (cases x) simp_all

lemma linalg_inv_error: "linalg_inv a = Inl e \<Longrightarrow> e = LinAlgError"
  by (cases a) (auto split: if_splits option.splits)

lemma np_matmul_error: "np_matmul a b = Inl e \<Longrightarrow> e = ValueError"
  by (cases a; cases b) (auto split: if_splits)

lemma quadratic_form_NonFinite [simp]: "quadratic_form d S \<noteq> NonFinite"
  by (simp add: quadratic_form_def and_then_NonFinite)

lemma quadratic_form_Raises:
  "quadratic_form d S = Raises e \<Longrightarrow> e = LinAlgError \<or> e = ValueError"
  by (auto simp: quadratic_form_def and_then_Raises dest: linalg_inv_error np_matmul_error)

subsection \<open>The stages on well-shaped samples\<close>

lemma np_mean_axis0_rows:
  "xs \<noteq> [] \<Longrightarrow> np_mean_axis0 p xs = Returns (Array1 (map mean (columns p xs)))"
  by (simp add: np_mean_axis0_def)

lemma length_columns [simp]: "length (columns c rs) = c"
  by (simp add: columns_def)

lemma np_broadcast_Array1:
  "length a = length b \<Longrightarrow>
   np_broadcast f (Array1 a) (Array1 b) = Inr (Array1 (map2 f a b))"
  by (simp add: np_broadcast_def broadcast_size_def stretch_def)

lemma np_broadcast_Array0:
  "np_broadcast f (Array0 a) (Array0 b) = Inr (Array0 (f a b))"
  by (simp add: np_broadcast_def broadcast_size_def stretch_def)

lemma of_rows2_2 [simp]: "of_rows2 2 c rs = Array2 c rs"
  by (simp add: numeral_2_eq_2)

lemma np_broadcast_Array2:
  assumes "length M = length N"
    and "\<forall>r \<in> set M. length r = p" and "\<forall>r \<in> set N. length r = p"
  shows "np_broadcast f (Array2 p M) (Array2 p N) = Inr (Array2 p (map2 (map2 f) M N))"
proof -
  have "map (stretch p) M = M" "map (stretch p) N = N"
    using assms(2,3) by (simp_all add: stretch_def map_idI)
  then show ?thesis
    using assms(1) by (simp add: np_broadcast_def broadcast_size_def stretch_def)
qed

lemma length_cov_rows [simp]: "length (cov_rows c rs) = c"
  by (simp add: cov_rows_def deviations_def)

lemma length_cov_rows_row: "r \<in> set (cov_rows c rs) \<Longrightarrow> length r = c"
  by (auto simp: cov_rows_def deviations_def)

lemma np_cov_rows:
  "0 < c \<Longrightarrow> 2 \<le> length rs \<Longrightarrow>
   np_cov c rs = Returns (if c = 1 then Array0 (hd (hd (cov_rows c rs)))
                          else Array2 c (cov_rows c rs))"
  by (simp add: np_cov_def cov_rows_def deviations_def Let_def)

lemma pooled_covariance_rows:
  assumes "2 \<le> p" "2 \<le> length xs" "2 \<le> length ys"
  shows "pooled_covariance p xs p ys = Returns (Array2 p (pooled_rows p xs ys))"
proof -
  have b: "np_broadcast (+)
       (Array2 p (map (map (\<lambda>v. of_int (int (length xs) - 1) * v)) (cov_rows p xs)))
       (Array2 p (map (map (\<lambda>v. of_int (int (length ys) - 1) * v)) (cov_rows p ys)))
     = Inr (Array2 p (map2 (map2 (+))
          (map (map (\<lambda>v. of_int (int (length xs) - 1) * v)) (cov_rows p xs))
          (map (map (\<lambda>v. of_int (int (length ys) - 1) * v)) (cov_rows p ys))))"
    by (rule np_broadcast_Array2) (auto simp: length_cov_rows_row)
  have d: "int (length xs) + int (length ys) - 2 \<noteq> 0" using assms by linarith
  have c: "np_cov p xs = Returns (Array2 p (cov_rows p xs))"
    "np_cov p ys = Returns (Array2 p (cov_rows p ys))"
    using assms by (simp_all add: np_cov_rows)
  show ?thesis
    unfolding pooled_covariance_def Let_def c and_then.simps nd_map.simps b raising.simps
      nd_div_int_def pooled_rows_def
    using d by simp
qed

lemma pooled_covariance_one_column:
  assumes "2 \<le> length xs" "2 \<le> length ys"
  shows "\<exists>v. pooled_covariance 1 xs 1 ys = Returns (Array0 v)"
proof -
  have d: "int (length xs) + int (length ys) - 2 \<noteq> 0" using assms by linarith
  show ?thesis
    using assms d
    by (simp add: pooled_covariance_def np_cov_rows np_broadcast_Array0 nd_div_int_def)
qed

lemma means_difference_rows:
  "xs \<noteq> [] \<Longrightarrow> ys \<noteq> [] \<Longrightarrow>
   means_difference p xs p ys =
     Returns (Array1 (map2 (-) (map mean (columns p xs)) (map mean (columns p ys))))"
  by (simp add: means_difference_def broadcast_size_def np_mean_axis0_rows np_broadcast_Array1)

lemma nd_elems_nd_map [simp]: "nd_elems (nd_map f a) = map f (nd_elems a)"
  by (cases a) (simp_all add: map_concat)

lemma t2_body_after_pooling:
  assumes md: "means_difference p xs q ys = Returns delta"
    and pc: "pooled_covariance p xs q ys = Returns S"
    and n: "2 \<le> length xs" "2 \<le> length ys" and p: "0 < p" "p < length xs" "p < length ys"
  shows "(\<exists>r. t2_body p xs q ys = Returns r)
         \<or> t2_body p xs q ys = Raises LinAlgError \<or> t2_body p xs q ys = Raises ValueError"
proof (cases "quadratic_form delta S")
  case (Raises e)
  with quadratic_form_Raises [OF Raises] md pc n show ?thesis
    by (auto simp: t2_body_def Let_def)
next
  case NonFinite
  then show ?thesis by simp
next
  case (Returns quad)
  have d1: "int p * (int (length xs) + int (length ys) - 2) \<noteq> 0" using n p by simp
  have d2: "\<not> (int p \<le> 0 \<or> int (length xs) + int (length ys) - int p - 1 \<le> 0)"
    using p by linarith
  have n0: "int (length xs) + int (length ys) \<noteq> 0" using n by linarith
  show ?thesis
    using md pc Returns d1 d2 n0
    by (simp add: t2_body_def Let_def nd_div_int_def f_cdf_def)
qed


subsection \<open>Exchanging the two samples\<close>

















subsection \<open>Equal samples\<close>

lemma length_swap_rows [simp]: "length (swap_rows i j st) = length st"
  by (simp add: swap_rows_def)

lemma length_eliminate [simp]: "length (eliminate k st) = length st"
  by (simp add: eliminate_def Let_def)

lemma length_gauss_jordan: "gauss_jordan ks st = Some st' \<Longrightarrow> length st' = length st"
  by (induction ks arbitrary: st) (auto split: option.splits)

lemma length_identity_rows [simp]: "length (identity_rows n) = n"
  by (simp add: identity_rows_def)

lemma linalg_inv_square:
  "linalg_inv (Array2 c rs) = Inr b \<Longrightarrow> \<exists>B. b = Array2 c B \<and> length B = c \<and> length rs = c"
  by (auto split: if_splits option.splits dest!: length_gauss_jordan)

lemma dot_zeros_left: "dot (replicate n 0) b = 0"
proof (induction n arbitrary: b)
  case 0 then show ?case by (simp add: dot_def)
next
  case (Suc n) then show ?case by (cases b) (simp_all add: dot_def)
qed

lemma dot_zeros_right: "dot a (replicate n 0) = 0"
proof (induction n arbitrary: a)
  case 0 then show ?case by (simp add: dot_def)
next
  case (Suc n) then show ?case by (cases a) (simp_all add: dot_def)
qed

lemma map2_minus_self: "map2 (-) m m = replicate (length m) (0 :: real)"
  by (induction m) simp_all

lemma means_difference_self:
  "xs \<noteq> [] \<Longrightarrow> means_difference p xs p xs = Returns (Array1 (replicate p 0))"
  by (simp add: means_difference_rows map2_minus_self)

lemma quadratic_form_zeros:
  assumes "linalg_inv S = Inr (Array2 p B)" and "length B = p"
  shows "quadratic_form (Array1 (replicate p 0)) S = Returns (Array0 0)"
  using assms by (simp add: quadratic_form_def dot_zeros_left dot_zeros_right)

lemma map2_plus_self:
  fixes f g :: "real \<Rightarrow> real"
  shows "map2 (map2 (+)) (map (map f) M) (map (map g) M) = map (map (\<lambda>v. f v + g v)) M"
proof -
  have "map2 (+) (map f r) (map g r) = map (\<lambda>v. f v + g v) r" for r
    by (induction r) simp_all
  then show ?thesis by (induction M) simp_all
qed

lemma pooled_rows_self:
  assumes "2 \<le> length xs"
  shows "pooled_rows p xs xs = cov_rows p xs"
proof -
  have "(of_int (int (length xs) - 1) * v + of_int (int (length xs) - 1) * v)
          / of_int (int (length xs) + int (length xs) - 2) = v" for v :: real
    using assms by (simp add: field_simps)
  then show ?thesis
    by (simp add: pooled_rows_def map2_plus_self comp_def)
qed

subsection \<open>The model computes the formulas of the specification\<close>

lemma sum_list_map_nth: "sum_list (map f xs) = (\<Sum>i<length xs. f (xs ! i))"
proof -
  have "sum_list (map f xs) = (\<Sum>i = 0..<length (map f xs). map f xs ! i)"
    by (rule sum_list_sum_nth)
  also have "\<dots> = (\<Sum>i<length xs. f (xs ! i))"
    by (simp add: atLeast0LessThan)
  finally show ?thesis .
qed

lemma columns_nth: "j < c \<Longrightarrow> columns c rs ! j = map (\<lambda>r. r ! j) rs"
  by (simp add: columns_def)

lemma mean_column: "j < c \<Longrightarrow> mean (columns c rs ! j) = col_mean rs j"
  by (simp add: columns_nth mean_def col_mean_def sum_list_map_nth)

lemma dot_maps:
  "dot (map f xs) (map g xs) = (\<Sum>i<length xs. f (xs ! i) * g (xs ! i))"
proof -
  have "map2 (*) (map f xs) (map g xs) = map (\<lambda>x. f x * g x) xs"
    by (induction xs) simp_all
  then show ?thesis by (simp add: dot_def sum_list_map_nth)
qed

lemma dot_nth:
  "length a = length b \<Longrightarrow> dot a b = (\<Sum>i<length a. a ! i * b ! i)"
proof -
  assume l: "length a = length b"
  have "map2 (*) a b = map (\<lambda>i. a ! i * b ! i) [0..<length a]"
    using l by (intro nth_equalityI) simp_all
  then show ?thesis by (simp add: dot_def sum_list_map_nth)
qed

lemma deviations_nth:
  "j < c \<Longrightarrow> deviations c rs ! j = map (\<lambda>r. r ! j - col_mean rs j) rs"
  using mean_column [of j c rs] by (simp add: deviations_def columns_nth)

lemma length_deviations [simp]: "length (deviations c rs) = c"
  by (simp add: deviations_def)

lemma length_cov_rows_nth: "j < c \<Longrightarrow> length (cov_rows c rs ! j) = c"
  by (simp add: cov_rows_def)

lemma cov_rows_nth:
  assumes "j < c" "k < c" "2 \<le> length rs"
  shows "cov_rows c rs ! j ! k = sample_cov rs j k"
proof -
  have "real (length rs - 1) = real (length rs) - 1" using assms(3) by simp
  moreover have "cov_rows c rs ! j ! k
      = dot (deviations c rs ! j) (deviations c rs ! k) * (1 / real (length rs - 1))"
    using assms(1,2) by (simp add: cov_rows_def)
  ultimately show ?thesis
    using assms(1,2) by (simp add: deviations_nth dot_maps sample_cov_def)
qed

lemma pooled_rows_eq:
  assumes "2 \<le> length xs" "2 \<le> length ys"
  shows "pooled_rows p xs ys = S_pooled_matrix p xs ys"
proof (rule nth_equalityI)
  show "length (pooled_rows p xs ys) = length (S_pooled_matrix p xs ys)"
    by (simp add: pooled_rows_def S_pooled_matrix_def)
next
  fix j assume "j < length (pooled_rows p xs ys)"
  then have j: "j < p" by (simp add: pooled_rows_def)
  have lx: "length (cov_rows p xs ! j) = p" and ly: "length (cov_rows p ys ! j) = p"
    using j by (simp_all add: length_cov_rows_nth)
  show "pooled_rows p xs ys ! j = S_pooled_matrix p xs ys ! j"
  proof (rule nth_equalityI)
    show "length (pooled_rows p xs ys ! j) = length (S_pooled_matrix p xs ys ! j)"
      using j lx ly by (simp add: pooled_rows_def S_pooled_matrix_def)
  next
    fix k assume "k < length (pooled_rows p xs ys ! j)"
    then have k: "k < p" using j lx ly by (simp add: pooled_rows_def)
    show "pooled_rows p xs ys ! j ! k = S_pooled_matrix p xs ys ! j ! k"
      using j k lx ly assms
      by (simp add: pooled_rows_def S_pooled_matrix_def S_pooled_def cov_rows_nth)
  qed
qed

lemma quadratic_form_value:
  assumes "linalg_inv S = Inr (Array2 p B)" and "length B = p" and "length d = p"
  shows "quadratic_form (Array1 d) S =
           Returns (Array0 (\<Sum>j<p. \<Sum>k<p. d ! j * (B ! j ! k) * d ! k))"
proof -
  let ?m = "map (dot d) (columns p B)"
  have m: "?m ! k = (\<Sum>j<p. d ! j * (B ! j ! k))" if "k < p" for k
    using that assms(2,3) by (simp add: columns_nth dot_nth)
  have "dot ?m d = (\<Sum>k<p. ?m ! k * d ! k)"
    using assms(3) by (simp add: dot_nth)
  also have "\<dots> = (\<Sum>k<p. (\<Sum>j<p. d ! j * (B ! j ! k)) * d ! k)"
  proof (rule sum.cong [OF refl])
    fix k assume "k \<in> {..<p}"
    then have "k < p" by simp
    from m [OF this] show "?m ! k * d ! k = (\<Sum>j<p. d ! j * (B ! j ! k)) * d ! k"
      by (simp only:)
  qed
  also have "\<dots> = (\<Sum>k<p. \<Sum>j<p. d ! j * (B ! j ! k) * d ! k)"
    by (simp add: sum_distrib_right)
  also have "\<dots> = (\<Sum>j<p. \<Sum>k<p. d ! j * (B ! j ! k) * d ! k)"
    by (rule sum.swap)
  finally have q: "dot ?m d = (\<Sum>j<p. \<Sum>k<p. d ! j * (B ! j ! k) * d ! k)" .
  show ?thesis
    using assms by (simp add: quadratic_form_def q)
qed

lemma means_difference_nth:
  "j < p \<Longrightarrow>
   map2 (-) (map mean (columns p xs)) (map mean (columns p ys)) ! j
     = col_mean xs j - col_mean ys j"
  by (simp add: mean_column)

subsection \<open>\<open>linalg_inv\<close> returns the inverse, and fails only on a singular matrix\<close>

lemma swap_rows_nth:
  assumes "k < length st" "i < length st" "r < length st"
  shows "swap_rows k i st ! r = (if r = k then st ! i else if r = i then st ! k else st ! r)"
  using assms by (auto simp add: swap_rows_def nth_list_update)

lemma rect_swap_rows:
  assumes "rect n w st" "k < n" "i < n"
  shows "rect n w (swap_rows k i st)"
  using assms by (simp add: rect_def length_swap_rows swap_rows_nth)

lemma solves_swap_rows:
  assumes "k < length st" "i < length st"
  shows "solves w (swap_rows k i st) z \<longleftrightarrow> solves w st z"
proof
  assume s: "solves w (swap_rows k i st) z"
  show "solves w st z"
    unfolding solves_def
  proof (intro allI impI)
    fix r assume r: "r < length st"
    let ?r' = "if r = k then i else if r = i then k else r"
    have r': "?r' < length st" using assms r by simp
    have "swap_rows k i st ! ?r' = st ! r"
      using assms r by (simp add: swap_rows_nth)
    moreover from s r' have "row_sum w (swap_rows k i st ! ?r') z = 0"
      unfolding solves_def length_swap_rows by blast
    ultimately show "row_sum w (st ! r) z = 0" by simp
  qed
next
  assume s: "solves w st z"
  show "solves w (swap_rows k i st) z"
    unfolding solves_def length_swap_rows
  proof (intro allI impI)
    fix r assume r: "r < length st"
    from s assms r show "row_sum w (swap_rows k i st ! r) z = 0"
      by (simp add: swap_rows_nth solves_def)
  qed
qed

lemma eliminate_nth:
  assumes "r < length st"
  shows "eliminate k st ! r =
    (if r = k then map (\<lambda>v. v / (st ! k ! k)) (st ! k)
     else map2 (\<lambda>a b. a - st ! r ! k * b) (st ! r) (map (\<lambda>v. v / (st ! k ! k)) (st ! k)))"
  using assms by (simp add: eliminate_def Let_def)

lemma rect_eliminate:
  assumes "rect n w st" "k < n"
  shows "rect n w (eliminate k st)"
  using assms by (simp add: rect_def length_eliminate eliminate_nth)

lemma eliminate_entry:
  assumes "rect n w st" "k < n" "r < n" "c < w"
  shows "eliminate k st ! r ! c =
    (if r = k then st ! k ! c / (st ! k ! k)
     else st ! r ! c - st ! r ! k * (st ! k ! c / (st ! k ! k)))"
  using assms by (simp add: rect_def eliminate_nth)

lemma row_sum_eliminate:
  assumes "rect n w st" "k < n" "r < n"
  shows "row_sum w (eliminate k st ! r) z =
    (if r = k then row_sum w (st ! k) z / (st ! k ! k)
     else row_sum w (st ! r) z - st ! r ! k * (row_sum w (st ! k) z / (st ! k ! k)))"
proof -
  have "row_sum w (eliminate k st ! r) z =
      (\<Sum>c<w. (if r = k then st ! k ! c / (st ! k ! k)
     else st ! r ! c - st ! r ! k * (st ! k ! c / (st ! k ! k))) * z c)"
    unfolding row_sum_def
  proof (rule sum.cong [OF refl])
    fix c assume "c \<in> {..<w}"
    then have "c < w" by simp
    from eliminate_entry [OF assms this]
    show "eliminate k st ! r ! c * z c =
      (if r = k then st ! k ! c / (st ! k ! k)
     else st ! r ! c - st ! r ! k * (st ! k ! c / (st ! k ! k))) * z c"
      by (simp only:)
  qed
  also have "\<dots> = (if r = k then row_sum w (st ! k) z / (st ! k ! k)
     else row_sum w (st ! r) z - st ! r ! k * (row_sum w (st ! k) z / (st ! k ! k)))"
  proof (cases "r = k")
    case True
    have "(\<Sum>c<w. st ! k ! c / (st ! k ! k) * z c) = (\<Sum>c<w. st ! k ! c * z c) / (st ! k ! k)"
      by (simp add: sum_divide_distrib)
    with True show ?thesis by (simp add: row_sum_def)
  next
    case False
    have "(\<Sum>c<w. (st ! r ! c - st ! r ! k * (st ! k ! c / (st ! k ! k))) * z c)
        = (\<Sum>c<w. st ! r ! c * z c - st ! r ! k * (st ! k ! c * z c / (st ! k ! k)))"
      by (rule sum.cong [OF refl]) (simp add: left_diff_distrib)
    also have "\<dots> = (\<Sum>c<w. st ! r ! c * z c)
                      - st ! r ! k * ((\<Sum>c<w. st ! k ! c * z c) / (st ! k ! k))"
      by (simp only: sum_subtractf sum_distrib_left sum_divide_distrib)
    finally show ?thesis using False by (simp add: row_sum_def)
  qed
  finally show ?thesis .
qed

lemma solves_eliminate:
  assumes "rect n w st" "k < n" "st ! k ! k \<noteq> 0"
  shows "solves w (eliminate k st) z \<longleftrightarrow> solves w st z"
proof -
  have n: "length st = n" using assms(1) by (simp add: rect_def)
  show ?thesis
  proof
    assume s: "solves w (eliminate k st) z"
    then have e: "row_sum w (eliminate k st ! r) z = 0" if "r < n" for r
      using that n by (simp add: solves_def length_eliminate)
    from e [OF assms(2)] row_sum_eliminate [OF assms(1,2,2), of z] assms(3)
    have k0: "row_sum w (st ! k) z = 0" by simp
    show "solves w st z"
      unfolding solves_def n
    proof (intro allI impI)
      fix r assume r: "r < n"
      from e [OF r] row_sum_eliminate [OF assms(1,2) r, of z] k0
      show "row_sum w (st ! r) z = 0" by (cases "r = k") simp_all
    qed
  next
    assume s: "solves w st z"
    then have e: "row_sum w (st ! r) z = 0" if "r < n" for r
      using that n by (simp add: solves_def)
    show "solves w (eliminate k st) z"
      unfolding solves_def length_eliminate n
    proof (intro allI impI)
      fix r assume r: "r < n"
      from row_sum_eliminate [OF assms(1,2) r, of z] e [OF r] e [OF assms(2)]
      show "row_sum w (eliminate k st ! r) z = 0" by simp
    qed
  qed
qed

lemma reduced_swap_rows:
  assumes "reduced k st" "k \<le> i" "i < length st"
  shows "reduced k (swap_rows k i st)"
  unfolding reduced_def length_swap_rows
proof (intro allI impI)
  fix r j assume r: "r < length st" and j: "j < k"
  have k: "k < length st" using assms(2,3) by simp
  from assms(1) have red: "\<And>r j. r < length st \<Longrightarrow> j < k \<Longrightarrow> st ! r ! j = (if r = j then 1 else 0)"
    by (simp add: reduced_def)
  show "swap_rows k i st ! r ! j = (if r = j then 1 else 0)"
    unfolding swap_rows_nth [OF k assms(3) r]
    using red [OF r j] red [OF k j] red [OF assms(3) j] assms(2) j
    by auto
qed

lemma reduced_eliminate:
  assumes "rect n w st" "k < n" "n \<le> w" "reduced k st" "st ! k ! k \<noteq> 0"
  shows "reduced (Suc k) (eliminate k st)"
proof -
  have n: "length st = n" using assms(1) by (simp add: rect_def)
  from assms(4) n have red: "\<And>r j. r < n \<Longrightarrow> j < k \<Longrightarrow> st ! r ! j = (if r = j then 1 else 0)"
    by (simp add: reduced_def)
  show ?thesis
    unfolding reduced_def length_eliminate n
  proof (intro allI impI)
    fix r j assume r: "r < n" and j: "j < Suc k"
    have jw: "j < w" using j assms(2,3) by simp
    show "eliminate k st ! r ! j = (if r = j then 1 else 0)"
      unfolding eliminate_entry [OF assms(1,2) r jw]
    proof (cases "j = k")
      case True
      with assms(5) show "(if r = k then st ! k ! j / st ! k ! k
          else st ! r ! j - st ! r ! k * (st ! k ! j / st ! k ! k)) = (if r = j then 1 else 0)"
        by auto
    next
      case False
      with j have jk: "j < k" by simp
      from red [OF r jk] red [OF assms(2) jk] jk
      show "(if r = k then st ! k ! j / st ! k ! k
          else st ! r ! j - st ! r ! k * (st ! k ! j / st ! k ! k)) = (if r = j then 1 else 0)"
        by auto
    qed
  qed
qed

lemma find_pivot_Some:
  assumes "find_pivot k st = Some i"
  shows "k \<le> i \<and> i < length st \<and> st ! i ! k \<noteq> 0"
  using assms by (auto simp add: find_pivot_def find_Some_iff)

lemma find_pivot_None:
  assumes "find_pivot k st = None" "k \<le> i" "i < length st"
  shows "st ! i ! k = 0"
  using assms by (auto simp add: find_pivot_def find_None_iff)

lemma no_pivot_kernel:
  assumes "rect n w st" "k < n" "n \<le> w" "reduced k st"
    and zero: "\<And>i. k \<le> i \<Longrightarrow> i < n \<Longrightarrow> st ! i ! k = 0"
  shows "\<exists>z. solves w st z \<and> (\<exists>c<n. z c \<noteq> 0) \<and> (\<forall>c\<ge>n. z c = 0)"
proof -
  define z where "z c = (if c = k then 1 else if c < k then - (st ! c ! k) else 0)" for c
  have n: "length st = n" using assms(1) by (simp add: rect_def)
  from assms(4) n have red: "\<And>r j. r < n \<Longrightarrow> j < k \<Longrightarrow> st ! r ! j = (if r = j then 1 else 0)"
    by (simp add: reduced_def)
  have kw: "k < w" using assms(2,3) by simp
  have "row_sum w (st ! i) z = 0" if i: "i < n" for i
  proof -
    have "row_sum w (st ! i) z =
        (\<Sum>c<w. (if c = k then st ! i ! k else 0) + (if c = i \<and> i < k then - (st ! i ! k) else 0))"
      unfolding row_sum_def
    proof (rule sum.cong [OF refl])
      fix c assume "c \<in> {..<w}"
      show "st ! i ! c * z c =
         (if c = k then st ! i ! k else 0) + (if c = i \<and> i < k then - (st ! i ! k) else 0)"
      proof (cases "c < k")
        case True
        from red [OF i True] True show ?thesis by (auto simp add: z_def)
      next
        case False
        then show ?thesis by (auto simp add: z_def)
      qed
    qed
    also have "\<dots> = st ! i ! k + (if i < k then - (st ! i ! k) else 0)"
    proof -
      have a: "(\<Sum>c<w. if c = k then st ! i ! k else 0) = st ! i ! k"
        using kw by simp
      have b: "(\<Sum>c<w. if c = i \<and> i < k then - (st ! i ! k) else 0)
                  = (if i < k then - (st ! i ! k) else 0)"
      proof (cases "i < k")
        case True
        with kw have "i < w" by simp
        with True show ?thesis by simp
      next
        case False
        then show ?thesis by simp
      qed
      show ?thesis by (simp only: sum.distrib a b)
    qed
    also have "\<dots> = 0"
      using zero [of i] i by (cases "i < k") simp_all
    finally show ?thesis .
  qed
  then have "solves w st z" by (simp add: solves_def n)
  moreover have "\<exists>c<n. z c \<noteq> 0" using assms(2) by (intro exI [of _ k]) (simp add: z_def)
  moreover have "\<forall>c\<ge>n. z c = 0" using assms(2) by (simp add: z_def)
  ultimately show ?thesis by blast
qed

lemma gauss_jordan_steps:
  assumes "rect n w st" "n \<le> w" "k \<le> n" "reduced k st"
  shows "case gauss_jordan [k..<n] st of
           Some st' \<Rightarrow> rect n w st' \<and> reduced n st' \<and> (\<forall>z. solves w st' z \<longleftrightarrow> solves w st z)
         | None \<Rightarrow> (\<exists>z. solves w st z \<and> (\<exists>c<n. z c \<noteq> 0) \<and> (\<forall>c\<ge>n. z c = 0))"
  using assms
proof (induction "n - k" arbitrary: k st)
  case 0
  then have "k = n" by simp
  with 0 show ?case by simp
next
  case (Suc d)
  then have k: "k < n" by simp
  have n: "length st = n" using Suc.prems(1) by (simp add: rect_def)
  have upt: "[k..<n] = k # [Suc k..<n]" using k by (simp add: upt_conv_Cons)
  show ?case
  proof (cases "find_pivot k st")
    case None
    have "\<And>i. k \<le> i \<Longrightarrow> i < n \<Longrightarrow> st ! i ! k = 0"
      using find_pivot_None [OF None] n by simp
    from no_pivot_kernel [OF Suc.prems(1) k Suc.prems(2) Suc.prems(4) this] None
    show ?thesis by (simp add: upt)
  next
    case (Some i)
    from find_pivot_Some [OF Some] n have i: "k \<le> i" "i < n" "st ! i ! k \<noteq> 0" by simp_all
    let ?s = "swap_rows k i st"
    let ?e = "eliminate k ?s"
    have rs: "rect n w ?s" by (rule rect_swap_rows [OF Suc.prems(1) k i(2)])
    have piv: "?s ! k ! k \<noteq> 0" using i k n by (simp add: swap_rows_nth)
    have re: "rect n w ?e" by (rule rect_eliminate [OF rs k])
    have "reduced k ?s" using Suc.prems(4) i n by (intro reduced_swap_rows) simp_all
    then have red: "reduced (Suc k) ?e"
      by (intro reduced_eliminate [OF rs k Suc.prems(2)]) (simp_all add: piv)
    have sol: "solves w ?e z \<longleftrightarrow> solves w st z" for z
      using solves_eliminate [OF rs k piv, of z] solves_swap_rows [of k st i w z] k i n by simp
    have d: "d = n - Suc k" using Suc.hyps(2) by simp
    have "Suc k \<le> n" using k by simp
    from Suc.hyps(1) [OF d re Suc.prems(2) this red] Some
    show ?thesis by (simp add: upt sol split: option.splits)
  qed
qed

lemma square_nth: "square n M \<Longrightarrow> i < n \<Longrightarrow> length (M ! i) = n"
  by (simp add: square_def list_all_length)

lemma mat_mult_identity_iff:
  "mat_mult n M N = identity_rows n \<longleftrightarrow>
     (\<forall>i<n. \<forall>k<n. (\<Sum>j<n. M ! i ! j * N ! j ! k) = (if i = k then 1 else 0))"
proof
  assume e: "mat_mult n M N = identity_rows n"
  show "\<forall>i<n. \<forall>k<n. (\<Sum>j<n. M ! i ! j * N ! j ! k) = (if i = k then 1 else 0)"
  proof (intro allI impI)
    fix i k assume ik: "i < n" "k < n"
    then have "mat_mult n M N ! i ! k = (\<Sum>j<n. M ! i ! j * N ! j ! k)"
      by (simp add: mat_mult_def)
    moreover from ik have "identity_rows n ! i ! k = (if i = k then 1 else 0)"
      by (simp add: identity_rows_def)
    ultimately show "(\<Sum>j<n. M ! i ! j * N ! j ! k) = (if i = k then 1 else 0)"
      using e by simp
  qed
next
  assume a: "\<forall>i<n. \<forall>k<n. (\<Sum>j<n. M ! i ! j * N ! j ! k) = (if i = k then 1 else 0)"
  show "mat_mult n M N = identity_rows n"
  proof (rule nth_equalityI)
    show "length (mat_mult n M N) = length (identity_rows n)"
      by (simp add: mat_mult_def identity_rows_def)
  next
    fix i assume "i < length (mat_mult n M N)"
    then have i: "i < n" by (simp add: mat_mult_def)
    show "mat_mult n M N ! i = identity_rows n ! i"
    proof (rule nth_equalityI)
      show "length (mat_mult n M N ! i) = length (identity_rows n ! i)"
        using i by (simp add: mat_mult_def identity_rows_def)
    next
      fix k assume "k < length (mat_mult n M N ! i)"
      then have k: "k < n" using i by (simp add: mat_mult_def)
      from a i k show "mat_mult n M N ! i ! k = identity_rows n ! i ! k"
        by (simp add: mat_mult_def identity_rows_def)
    qed
  qed
qed

lemma sum_split_add:
  fixes f :: "nat \<Rightarrow> real"
  shows "(\<Sum>c<n + m. f c) = (\<Sum>c<n. f c) + (\<Sum>k<m. f (n + k))"
  by (induction m) (simp_all add: add.assoc)

lemma augmented_nth:
  assumes "square n M" "i < n"
  shows "augmented n M ! i = M ! i @ map (\<lambda>j. if i = j then 1 else 0) [0..<n]"
  using assms by (simp add: augmented_def square_def identity_rows_def)

lemma rect_augmented:
  assumes "square n M"
  shows "rect n (n + n) (augmented n M)"
proof -
  have "length (augmented n M) = n"
    using assms by (simp add: augmented_def square_def identity_rows_def)
  moreover have "\<forall>i<n. length (augmented n M ! i) = n + n"
    using assms by (simp add: augmented_nth square_nth)
  ultimately show ?thesis by (simp add: rect_def)
qed

lemma row_sum_augmented:
  assumes "square n M" "i < n"
  shows "row_sum (n + n) (augmented n M ! i) z = (\<Sum>c<n. M ! i ! c * z c) + z (n + i)"
proof -
  have l: "length (M ! i) = n" by (rule square_nth [OF assms])
  have a: "(\<Sum>c<n. augmented n M ! i ! c * z c) = (\<Sum>c<n. M ! i ! c * z c)"
    by (rule sum.cong [OF refl]) (simp add: augmented_nth [OF assms] nth_append l)
  have "(\<Sum>k<n. augmented n M ! i ! (n + k) * z (n + k))
          = (\<Sum>k<n. if k = i then z (n + i) else 0)"
    by (rule sum.cong [OF refl]) (auto simp add: augmented_nth [OF assms] nth_append l)
  also have "\<dots> = z (n + i)" using assms(2) by simp
  finally show ?thesis by (simp add: row_sum_def sum_split_add a)
qed

lemma solves_augmented:
  assumes "square n M"
  shows "solves (n + n) (augmented n M) z \<longleftrightarrow>
           (\<forall>i<n. (\<Sum>c<n. M ! i ! c * z c) + z (n + i) = 0)"
proof -
  have "length (augmented n M) = n" using rect_augmented [OF assms] by (simp add: rect_def)
  then show ?thesis by (simp add: solves_def row_sum_augmented [OF assms])
qed

lemma row_sum_reduced:
  assumes "rect n (n + n) st" "reduced n st" "i < n"
  shows "row_sum (n + n) (st ! i) z = z i + (\<Sum>k<n. map (drop n) st ! i ! k * z (n + k))"
proof -
  have n: "length st = n" and l: "length (st ! i) = n + n"
    using assms(1,3) by (simp_all add: rect_def)
  from assms(2) n have red: "\<And>j. j < n \<Longrightarrow> st ! i ! j = (if i = j then 1 else 0)"
    using assms(3) by (simp add: reduced_def)
  have "(\<Sum>c<n. st ! i ! c * z c) = (\<Sum>c<n. if c = i then z i else 0)"
    by (rule sum.cong [OF refl]) (auto simp add: red)
  also have "\<dots> = z i" using assms(3) by simp
  finally have a: "(\<Sum>c<n. st ! i ! c * z c) = z i" .
  have b: "(\<Sum>k<n. st ! i ! (n + k) * z (n + k))
             = (\<Sum>k<n. map (drop n) st ! i ! k * z (n + k))"
    by (rule sum.cong [OF refl]) (simp add: n l assms(3))
  show ?thesis by (simp add: row_sum_def sum_split_add a b)
qed

lemma solves_reduced:
  assumes "rect n (n + n) st" "reduced n st"
  shows "solves (n + n) st z \<longleftrightarrow>
           (\<forall>i<n. z i + (\<Sum>k<n. map (drop n) st ! i ! k * z (n + k)) = 0)"
proof -
  have "length st = n" using assms(1) by (simp add: rect_def)
  then show ?thesis by (simp add: solves_def row_sum_reduced [OF assms])
qed

lemma square_result:
  assumes "rect n (n + n) st"
  shows "square n (map (drop n) st)"
  using assms by (simp add: rect_def square_def list_all_length)

lemma gauss_jordan_Some:
  assumes "square n M" "gauss_jordan [0..<n] (augmented n M) = Some st"
  shows "square n (map (drop n) st)"
    and "(\<forall>i<n. (\<Sum>c<n. M ! i ! c * z c) + z (n + i) = 0) \<longleftrightarrow>
         (\<forall>i<n. z i + (\<Sum>k<n. map (drop n) st ! i ! k * z (n + k)) = 0)"
proof -
  have "reduced 0 (augmented n M)" by (simp add: reduced_def)
  from gauss_jordan_steps [OF rect_augmented [OF assms(1)] _ _ this] assms(2)
  have r: "rect n (n + n) st" "reduced n st"
    and s: "\<And>z. solves (n + n) st z \<longleftrightarrow> solves (n + n) (augmented n M) z"
    by simp_all
  from r(1) show "square n (map (drop n) st)" by (rule square_result)
  from s [of z] show "(\<forall>i<n. (\<Sum>c<n. M ! i ! c * z c) + z (n + i) = 0) \<longleftrightarrow>
         (\<forall>i<n. z i + (\<Sum>k<n. map (drop n) st ! i ! k * z (n + k)) = 0)"
    by (simp add: solves_augmented [OF assms(1)] solves_reduced [OF r])
qed

lemma gauss_jordan_right_inverse:
  assumes "square n M" "gauss_jordan [0..<n] (augmented n M) = Some st"
  shows "mat_mult n M (map (drop n) st) = identity_rows n"
  unfolding mat_mult_identity_iff
proof (intro allI impI)
  let ?B = "map (drop n) st"
  fix i k assume i: "i < n" and k: "k < n"
  define z where "z c = (if c < n then ?B ! c ! k else if c = n + k then - 1 else 0)" for c
  have "z j + (\<Sum>k'<n. ?B ! j ! k' * z (n + k')) = 0" if "j < n" for j
  proof -
    have "(\<Sum>k'<n. ?B ! j ! k' * z (n + k')) = (\<Sum>k'<n. if k' = k then - (?B ! j ! k) else 0)"
      by (rule sum.cong [OF refl]) (auto simp add: z_def)
    also have "\<dots> = - (?B ! j ! k)" using k by simp
    finally show ?thesis using that by (simp add: z_def)
  qed
  with gauss_jordan_Some(2) [OF assms, of z]
  have "(\<Sum>c<n. M ! i ! c * z c) + z (n + i) = 0" using i by blast
  moreover have "(\<Sum>c<n. M ! i ! c * z c) = (\<Sum>c<n. M ! i ! c * ?B ! c ! k)"
    by (rule sum.cong [OF refl]) (simp add: z_def)
  ultimately show "(\<Sum>j<n. M ! i ! j * ?B ! j ! k) = (if i = k then 1 else 0)"
    by (simp add: z_def split: if_splits)
qed

lemma gauss_jordan_left_inverse:
  assumes "square n M" "gauss_jordan [0..<n] (augmented n M) = Some st"
  shows "mat_mult n (map (drop n) st) M = identity_rows n"
  unfolding mat_mult_identity_iff
proof (intro allI impI)
  let ?B = "map (drop n) st"
  fix i k assume i: "i < n" and k: "k < n"
  define z where "z c = (if c < n then (if c = k then - 1 else 0) else M ! (c - n) ! k)" for c
  have "(\<Sum>c<n. M ! j ! c * z c) + z (n + j) = 0" if "j < n" for j
  proof -
    have "(\<Sum>c<n. M ! j ! c * z c) = (\<Sum>c<n. if c = k then - (M ! j ! k) else 0)"
      by (rule sum.cong [OF refl]) (auto simp add: z_def)
    also have "\<dots> = - (M ! j ! k)" using k by simp
    finally show ?thesis by (simp add: z_def)
  qed
  with gauss_jordan_Some(2) [OF assms, of z]
  have "z i + (\<Sum>k'<n. ?B ! i ! k' * z (n + k')) = 0" using i by blast
  moreover have "(\<Sum>k'<n. ?B ! i ! k' * z (n + k')) = (\<Sum>k'<n. ?B ! i ! k' * M ! k' ! k)"
    by (rule sum.cong [OF refl]) (simp add: z_def)
  ultimately show "(\<Sum>j<n. ?B ! i ! j * M ! j ! k) = (if i = k then 1 else 0)"
    using i by (simp add: z_def split: if_splits)
qed

lemma gauss_jordan_unique:
  assumes "square n M" "gauss_jordan [0..<n] (augmented n M) = Some st"
    and "square n B" "mat_mult n M B = identity_rows n"
  shows "map (drop n) st = B"
proof -
  let ?B = "map (drop n) st"
  have sq: "square n ?B" by (rule gauss_jordan_Some(1) [OF assms(1,2)])
  from assms(4) have mb: "\<And>i k. i < n \<Longrightarrow> k < n \<Longrightarrow>
      (\<Sum>j<n. M ! i ! j * B ! j ! k) = (if i = k then 1 else 0)"
    by (simp add: mat_mult_identity_iff)
  have entry: "?B ! i ! k = B ! i ! k" if i: "i < n" and k: "k < n" for i k
  proof -
    define z where "z c = (if c < n then B ! c ! k else if c = n + k then - 1 else 0)" for c
    have "(\<Sum>c<n. M ! j ! c * z c) + z (n + j) = 0" if "j < n" for j
    proof -
      have "(\<Sum>c<n. M ! j ! c * z c) = (\<Sum>c<n. M ! j ! c * B ! c ! k)"
        by (rule sum.cong [OF refl]) (simp add: z_def)
      with mb [OF that k] show ?thesis by (simp add: z_def)
    qed
    with gauss_jordan_Some(2) [OF assms(1,2), of z]
    have "z i + (\<Sum>k'<n. ?B ! i ! k' * z (n + k')) = 0" using i by blast
    moreover have "(\<Sum>k'<n. ?B ! i ! k' * z (n + k'))
         = (\<Sum>k'<n. if k' = k then - (?B ! i ! k) else 0)"
      by (rule sum.cong [OF refl]) (auto simp add: z_def)
    moreover have "\<dots> = - (?B ! i ! k)" using k by simp
    ultimately show ?thesis using i by (simp add: z_def)
  qed
  show ?thesis
  proof (rule nth_equalityI)
    show "length ?B = length B" using sq assms(3) by (simp add: square_def)
  next
    fix i assume "i < length ?B"
    with sq have i: "i < n" by (simp add: square_def)
    show "?B ! i = B ! i"
    proof (rule nth_equalityI)
      show "length (?B ! i) = length (B ! i)"
        using square_nth [OF sq i] square_nth [OF assms(3) i] by simp
    next
      fix k assume "k < length (?B ! i)"
      with square_nth [OF sq i] have "k < n" by simp
      from entry [OF i this] show "?B ! i ! k = B ! i ! k" .
    qed
  qed
qed

lemma gauss_jordan_None:
  assumes "square n M" "gauss_jordan [0..<n] (augmented n M) = None"
  shows "mat_mult n B M \<noteq> identity_rows n"
proof
  assume "mat_mult n B M = identity_rows n"
  then have bm: "\<And>i k. i < n \<Longrightarrow> k < n \<Longrightarrow>
      (\<Sum>j<n. B ! i ! j * M ! j ! k) = (if i = k then 1 else 0)"
    by (simp add: mat_mult_identity_iff)
  have "reduced 0 (augmented n M)" by (simp add: reduced_def)
  from gauss_jordan_steps [OF rect_augmented [OF assms(1)] _ _ this] assms(2)
  obtain z where s: "solves (n + n) (augmented n M) z"
    and nz: "\<exists>c<n. z c \<noteq> 0" and z0: "\<forall>c\<ge>n. z c = 0"
    by auto
  from s z0 have mz: "(\<Sum>c<n. M ! j ! c * z c) = 0" if "j < n" for j
    using that by (simp add: solves_augmented [OF assms(1)])
  have "z i = 0" if i: "i < n" for i
  proof -
    have "(\<Sum>k<n. (if i = k then 1 else 0) * z k) = (\<Sum>k<n. if k = i then z i else 0)"
      by (rule sum.cong [OF refl]) auto
    also have "\<dots> = z i" using i by simp
    finally have "z i = (\<Sum>k<n. (if i = k then 1 else 0) * z k)" by simp
    also have "\<dots> = (\<Sum>k<n. (\<Sum>j<n. B ! i ! j * M ! j ! k) * z k)"
      by (rule sum.cong [OF refl]) (simp add: bm [OF i])
    also have "\<dots> = (\<Sum>k<n. \<Sum>j<n. B ! i ! j * (M ! j ! k * z k))"
      by (simp add: sum_distrib_right mult.assoc)
    also have "\<dots> = (\<Sum>j<n. \<Sum>k<n. B ! i ! j * (M ! j ! k * z k))"
      by (rule sum.swap)
    also have "\<dots> = (\<Sum>j<n. B ! i ! j * (\<Sum>k<n. M ! j ! k * z k))"
      by (simp add: sum_distrib_left)
    also have "\<dots> = 0"
      by (rule sum.neutral) (simp add: mz)
    finally show ?thesis .
  qed
  with nz show False by blast
qed

lemma linalg_inv_augmented:
  "linalg_inv (Array2 n M) =
     (if length M \<noteq> n then Inl LinAlgError
      else case gauss_jordan [0..<n] (augmented n M) of
             None \<Rightarrow> Inl LinAlgError
           | Some st \<Rightarrow> Inr (Array2 n (map (drop n) st)))"
  by (simp add: augmented_def)

lemma linalg_inv_inverse_of:
  assumes "inverse_of n M B"
  shows "linalg_inv (Array2 n M) = Inr (Array2 n B)"
proof -
  from assms have sq: "square n M" "square n B"
    and mb: "mat_mult n M B = identity_rows n" and bm: "mat_mult n B M = identity_rows n"
    by (simp_all add: inverse_of_def)
  from gauss_jordan_None [OF sq(1), of B] bm
  obtain st where st: "gauss_jordan [0..<n] (augmented n M) = Some st" by auto
  from gauss_jordan_unique [OF sq(1) st sq(2) mb] st sq(1)
  show ?thesis unfolding linalg_inv_augmented by (simp add: square_def)
qed

lemma linalg_inv_returns_inverse:
  assumes "square n M" "linalg_inv (Array2 n M) = Inr (Array2 n B)"
  shows "inverse_of n M B"
proof -
  from assms(2) obtain st where st: "gauss_jordan [0..<n] (augmented n M) = Some st"
    and B: "B = map (drop n) st"
    unfolding linalg_inv_augmented by (auto split: if_splits option.splits)
  from gauss_jordan_Some(1) [OF assms(1) st] gauss_jordan_right_inverse [OF assms(1) st]
    gauss_jordan_left_inverse [OF assms(1) st] assms(1)
  show ?thesis by (simp add: inverse_of_def B)
qed

lemma linalg_inv_singular:
  assumes "square n M" "\<not> (\<exists>B. inverse_of n M B)"
  shows "linalg_inv (Array2 n M) = Inl LinAlgError"
proof (cases "linalg_inv (Array2 n M)")
  case (Inl e)
  then show ?thesis unfolding linalg_inv_augmented by (simp split: if_splits option.splits)
next
  case (Inr R)
  then obtain B where "R = Array2 n B"
    unfolding linalg_inv_augmented by (auto split: if_splits option.splits)
  with Inr linalg_inv_returns_inverse [OF assms(1)] assms(2) show ?thesis by blast
qed

lemma cov_rows_eq:
  assumes "2 \<le> length xs"
  shows "cov_rows p xs = sample_cov_matrix p xs"
proof (rule nth_equalityI)
  show "length (cov_rows p xs) = length (sample_cov_matrix p xs)"
    by (simp add: cov_rows_def sample_cov_matrix_def)
next
  fix j assume "j < length (cov_rows p xs)"
  then have j: "j < p" by (simp add: cov_rows_def)
  show "cov_rows p xs ! j = sample_cov_matrix p xs ! j"
  proof (rule nth_equalityI)
    show "length (cov_rows p xs ! j) = length (sample_cov_matrix p xs ! j)"
      using j by (simp add: length_cov_rows_nth sample_cov_matrix_def)
  next
    fix k assume "k < length (cov_rows p xs ! j)"
    then have k: "k < p" using j by (simp add: length_cov_rows_nth)
    show "cov_rows p xs ! j ! k = sample_cov_matrix p xs ! j ! k"
      using j k assms by (simp add: cov_rows_nth sample_cov_matrix_def)
  qed
qed

subsection \<open>Dimensions\<close>

text \<open>
  C3, as stated, fails: column counts that differ are not always rejected.  With 2 columns in
  \<open>X\<close> and 1 column in \<open>Y\<close> numpy broadcasts the one mean and the one variance of \<open>Y\<close> over
  the two columns of \<open>X\<close>, and the function returns a result.
\<close>

theorem column_mismatch_counterexample:
  "wf_array (Array2 2 sample_X) \<and> wf_array (Array2 1 sample_Y1) \<and> (2 :: nat) \<noteq> 1
   \<and> TwoSampleT2Test (Array2 2 sample_X) (Array2 1 sample_Y1) =
       Returns \<lparr> statistic = Array0 (54 / 29), p_value = Array0 (One_minus_fdtr 2 3 (54 / 29)),
                 printed_df = (2, 3) \<rparr>"
  by code_simp

text \<open>
  C3, amended: the function has no check of its own; it fails with ValueError (numpy's error
  for shapes that cannot be broadcast, what the specification calls DimensionMismatch) for
  every pair of inputs whose column counts differ and are both different from 1; in
  particular when \<open>X\<close> has 2 columns and \<open>Y\<close> has 3.
\<close>

theorem column_mismatch_raises:
  "(p \<noteq> q \<and> p \<noteq> 1 \<and> q \<noteq> 1 \<longrightarrow>
      TwoSampleT2Test (Array2 p xs) (Array2 q ys) = Raises ValueError)
   \<and> TwoSampleT2Test (Array2 2 xs) (Array2 3 ys) = Raises ValueError"
  by (simp add: t2_body_def means_difference_def broadcast_size_def)

theorem column_mismatch_raises_witness:
  "(2 :: nat) \<noteq> 3 \<and> (2 :: nat) \<noteq> 1 \<and> (3 :: nat) \<noteq> 1
   \<and> TwoSampleT2Test (Array2 2 sample_X) (Array2 3 sample_Y3) = Raises ValueError"
proof -
  have h: "(2 :: nat) \<noteq> 3 \<and> (2 :: nat) \<noteq> 1 \<and> (3 :: nat) \<noteq> 1" by simp
  from column_mismatch_raises [of 2 3 sample_X sample_Y3] h show ?thesis by blast
qed

text \<open>
  C9: for \<open>X\<close> of shape \<open>n1 x p\<close> and \<open>Y\<close> of shape \<open>n2 x p\<close> with \<open>n1, n2 > p \<ge> 1\<close> the three
  divisors \<open>n1+n2-2\<close>, \<open>n1+n2\<close> and \<open>p*(n1+n2-2)\<close> are positive, and no division of the run
  has a zero divisor: the run neither raises ZeroDivisionError nor leaves the reals.
\<close>

theorem divisors_nonzero:
  assumes "wf_array (Array2 p xs)" and "wf_array (Array2 p ys)"
    and "1 \<le> p" and "p < length xs" and "p < length ys"
  shows "0 < int (length xs) + int (length ys) - 2
         \<and> 0 < int (length xs) + int (length ys)
         \<and> 0 < int p * (int (length xs) + int (length ys) - 2)
         \<and> TwoSampleT2Test (Array2 p xs) (Array2 p ys) \<noteq> Raises ZeroDivisionError
         \<and> TwoSampleT2Test (Array2 p xs) (Array2 p ys) \<noteq> NonFinite"
proof -
  have n: "2 \<le> length xs" "2 \<le> length ys" using assms by linarith+
  then have ne: "xs \<noteq> []" "ys \<noteq> []" by auto
  have pc: "\<exists>S. pooled_covariance p xs p ys = Returns S"
  proof (cases "p = 1")
    case True
    with pooled_covariance_one_column [OF n] show ?thesis by auto
  next
    case False
    with assms(3) have "2 \<le> p" by simp
    from pooled_covariance_rows [OF this n] show ?thesis by auto
  qed
  then obtain S where S: "pooled_covariance p xs p ys = Returns S" ..
  from t2_body_after_pooling [OF means_difference_rows [OF ne] S n _ assms(4,5)] assms(3)
  have "(\<exists>r. t2_body p xs p ys = Returns r)
         \<or> t2_body p xs p ys = Raises LinAlgError \<or> t2_body p xs p ys = Raises ValueError"
    by simp
  moreover have "0 < int (length xs) + int (length ys) - 2" using n by linarith
  moreover have "0 < int p * (int (length xs) + int (length ys) - 2)"
    using n assms(3) by simp
  ultimately show ?thesis by auto
qed

theorem divisors_nonzero_witness:
  "wf_array (Array2 2 sample_X) \<and> wf_array (Array2 2 sample_Y)
   \<and> (1 :: nat) \<le> 2 \<and> 2 < length sample_X \<and> 2 < length sample_Y
   \<and> 0 < int (length sample_X) + int (length sample_Y) - 2
   \<and> 0 < int (length sample_X) + int (length sample_Y)
   \<and> 0 < int 2 * (int (length sample_X) + int (length sample_Y) - 2)
   \<and> TwoSampleT2Test (Array2 2 sample_X) (Array2 2 sample_Y) \<noteq> Raises ZeroDivisionError
   \<and> TwoSampleT2Test (Array2 2 sample_X) (Array2 2 sample_Y) \<noteq> NonFinite"
proof -
  have h1: "wf_array (Array2 2 sample_X)" by (simp add: sample_X_def)
  have h2: "wf_array (Array2 2 sample_Y)" by (simp add: sample_Y_def)
  have h3: "(1 :: nat) \<le> 2" by simp
  have h4: "2 < length sample_X" by (simp add: sample_X_def)
  have h5: "2 < length sample_Y" by (simp add: sample_Y_def)
  from divisors_nonzero [OF h1 h2 h3 h4 h5] h1 h2 h3 h4 h5 show ?thesis by blast
qed



subsection \<open>Symmetry\<close>


subsection \<open>Equal samples\<close>

text \<open>
  C6, as stated, fails for one column.  The sample \<open>[[0], [1], [3]]\<close> has more rows than
  columns and the variance 7/3, which is invertible (its inverse is 3/7); but \<open>np.cov\<close>
  returns it as a 0-d array, which \<open>np.linalg.inv\<close> rejects, and the call raises LinAlgError.
\<close>

theorem equal_samples_counterexample:
  "wf_array (Array2 1 sample_X1) \<and> 1 < length sample_X1
   \<and> inverse_of 1 (sample_cov_matrix 1 sample_X1) [[3 / 7]]
   \<and> np_cov 1 sample_X1 = Returns (Array0 (7 / 3))
   \<and> TwoSampleT2Test (Array2 1 sample_X1) (Array2 1 sample_X1) = Raises LinAlgError"
  by code_simp

text \<open>
  C6, amended: for every sample \<open>X\<close> of \<open>p \<ge> 2\<close> columns and more than \<open>p\<close> rows whose sample
  covariance matrix is invertible, the call with both arguments equal to \<open>X\<close> returns the
  statistic 0 and the p-value 1, exactly.
\<close>

theorem equal_samples:
  assumes "wf_array (Array2 p xs)" and "2 \<le> p" and "p < length xs"
    and "inverse_of p (sample_cov_matrix p xs) B"
  shows "TwoSampleT2Test (Array2 p xs) (Array2 p xs) =
           Returns \<lparr> statistic = Array0 0, p_value = Array0 (Exact 1),
                     printed_df = (int p, 2 * int (length xs) - int p - 1) \<rparr>"
proof -
  have n: "2 \<le> length xs" and ne: "xs \<noteq> []" using assms(2,3) by auto
  from linalg_inv_inverse_of [OF assms(4)]
  have inv: "linalg_inv (Array2 p (sample_cov_matrix p xs)) = Inr (Array2 p B)" .
  from assms(4) have B: "length B = p" by (simp add: inverse_of_def square_def)
  have pc: "pooled_covariance p xs p xs = Returns (Array2 p (sample_cov_matrix p xs))"
    using pooled_covariance_rows [OF assms(2) n n]
    by (simp add: pooled_rows_self [OF n] cov_rows_eq [OF n])
  have qf: "quadratic_form (Array1 (replicate p 0)) (Array2 p (sample_cov_matrix p xs))
              = Returns (Array0 0)"
    by (rule quadratic_form_zeros [OF inv B])
  have d1: "int p * (int (length xs) + int (length xs) - 2) \<noteq> 0" using assms(2) n by simp
  have d2: "\<not> (int p \<le> 0 \<or> int (length xs) + int (length xs) - int p - 1 \<le> 0)"
    using assms(2,3) by linarith
  have n0: "int (length xs) + int (length xs) \<noteq> 0" using n by linarith
  show ?thesis
    using d1 d2 n0
    by (simp add: t2_body_def Let_def means_difference_self [OF ne] pc qf nd_div_int_def
        f_cdf_def)
qed

theorem equal_samples_witness:
  "wf_array (Array2 2 sample_X) \<and> (2 :: nat) \<le> 2 \<and> 2 < length sample_X
   \<and> inverse_of 2 (sample_cov_matrix 2 sample_X) [[4, 2], [2, 4]]
   \<and> TwoSampleT2Test (Array2 2 sample_X) (Array2 2 sample_X) =
           Returns \<lparr> statistic = Array0 0, p_value = Array0 (Exact 1),
                     printed_df = (int 2, 2 * int (length sample_X) - int 2 - 1) \<rparr>"
proof -
  have h1: "wf_array (Array2 2 sample_X)" by (simp add: sample_X_def)
  have h2: "(2 :: nat) \<le> 2" by simp
  have h3: "2 < length sample_X" by (simp add: sample_X_def)
  have h4: "inverse_of 2 (sample_cov_matrix 2 sample_X) [[4, 2], [2, 4]]" by code_simp
  from equal_samples [OF h1 h2 h3 h4] h1 h2 h3 h4 show ?thesis by blast
qed

subsection \<open>The statistic and the p-value\<close>

text \<open>
  C1, as stated, fails for one column (\<open>p = 1\<close>).  The samples \<open>[[0], [1], [3]]\<close> and
  \<open>[[1], [2], [4]]\<close> have more rows than columns and the pooled variance 7/3, which is
  invertible (its inverse is 3/7); but \<open>np.cov\<close> returns a variance as a 0-d array, so the
  pooled covariance is 0-d too, \<open>np.linalg.inv\<close> rejects it, and the call raises LinAlgError
  instead of returning a pair.
\<close>

theorem statistic_one_column_counterexample:
  "wf_array (Array2 1 sample_X1) \<and> wf_array (Array2 1 sample_Y1)
   \<and> (1 :: nat) \<le> 1 \<and> 1 < length sample_X1 \<and> 1 < length sample_Y1
   \<and> inverse_of 1 (S_pooled_matrix 1 sample_X1 sample_Y1) [[3 / 7]]
   \<and> pooled_covariance 1 sample_X1 1 sample_Y1 = Returns (Array0 (7 / 3))
   \<and> TwoSampleT2Test (Array2 1 sample_X1) (Array2 1 sample_Y1) = Raises LinAlgError"
  by code_simp

text \<open>
  C1, amended: for all inputs \<open>X\<close> of shape \<open>n1 x p\<close> and \<open>Y\<close> of shape \<open>n2 x p\<close> with
  \<open>n1, n2 > p \<ge> 2\<close> and \<open>S_pooled\<close> invertible, with inverse \<open>B\<close>: the pooled covariance the
  code computes is the matrix \<open>S_pooled = ((n1-1)*Sx + (n2-1)*Sy)/(n1+n2-2)\<close> of the
  specification, with \<open>Sx\<close> and \<open>Sy\<close> the sample covariances of divisor \<open>n - 1\<close>, and the call
  returns the pair of the statistic \<open>T2 * (n1+n2-p-1) / (p * (n1+n2-2))\<close>, where
  \<open>T2 = (n1*n2)/(n1+n2) * delta\<^sup>T * B * delta\<close> and \<open>delta\<close> is the difference of the column
  means, and of the p-value \<open>1 - CDF_F(statistic; p, n1+n2-p-1)\<close>.
\<close>

theorem statistic_and_p_value:
  assumes "wf_array (Array2 p xs)" and "wf_array (Array2 p ys)"
    and "2 \<le> p" and "p < length xs" and "p < length ys"
    and "inverse_of p (S_pooled_matrix p xs ys) B"
  shows "pooled_covariance p xs p ys = Returns (Array2 p (S_pooled_matrix p xs ys))
       \<and> TwoSampleT2Test (Array2 p xs) (Array2 p ys) =
           Returns \<lparr> statistic = Array0 (F_statistic p xs ys B),
                     p_value = Array0 (upper_tail (int p)
                                 (int (length xs) + int (length ys) - int p - 1)
                                 (F_statistic p xs ys B)),
                     printed_df = (int p, int (length xs) + int (length ys) - int p - 1) \<rparr>"
proof -
  have n: "2 \<le> length xs" "2 \<le> length ys" and ne: "xs \<noteq> []" "ys \<noteq> []"
    using assms(3,4,5) by auto
  let ?d = "map2 (-) (map mean (columns p xs)) (map mean (columns p ys))"
  have pc: "pooled_covariance p xs p ys = Returns (Array2 p (S_pooled_matrix p xs ys))"
    using pooled_covariance_rows [OF assms(3) n] by (simp add: pooled_rows_eq [OF n])
  from linalg_inv_inverse_of [OF assms(6)]
  have inv: "linalg_inv (Array2 p (S_pooled_matrix p xs ys)) = Inr (Array2 p B)" .
  from assms(6) have B: "length B = p" by (simp add: inverse_of_def square_def)
  have "(\<Sum>j<p. \<Sum>k<p. ?d ! j * (B ! j ! k) * ?d ! k)
      = (\<Sum>j<p. \<Sum>k<p. (col_mean xs j - col_mean ys j) * (B ! j ! k)
                           * (col_mean xs k - col_mean ys k))"
    by (intro sum.cong refl) (simp add: mean_column)
  with quadratic_form_value [OF inv B, of ?d]
  have qf: "quadratic_form (Array1 ?d) (Array2 p (S_pooled_matrix p xs ys)) =
      Returns (Array0 (\<Sum>j<p. \<Sum>k<p. (col_mean xs j - col_mean ys j) * (B ! j ! k)
                           * (col_mean xs k - col_mean ys k)))"
    by simp
  have d1: "int p * (int (length xs) + int (length ys) - 2) \<noteq> 0" using assms(3) n by simp
  have d2: "\<not> (int p \<le> 0 \<or> int (length xs) + int (length ys) - int p - 1 \<le> 0)"
    using assms(3,4) n by linarith
  have n0: "int (length xs) + int (length ys) \<noteq> 0" using n by linarith
  have "TwoSampleT2Test (Array2 p xs) (Array2 p ys) =
           Returns \<lparr> statistic = Array0 (F_statistic p xs ys B),
                     p_value = Array0 (upper_tail (int p)
                                 (int (length xs) + int (length ys) - int p - 1)
                                 (F_statistic p xs ys B)),
                     printed_df = (int p, int (length xs) + int (length ys) - int p - 1) \<rparr>"
    using d1 d2 n0
    by (simp add: t2_body_def Let_def means_difference_rows [OF ne] pc qf nd_div_int_def
        f_cdf_def F_statistic_def T_squared_def upper_tail_def)
  with pc show ?thesis by simp
qed

theorem statistic_and_p_value_witness:
  "wf_array (Array2 2 sample_X) \<and> wf_array (Array2 2 sample_Y)
   \<and> (2 :: nat) \<le> 2 \<and> 2 < length sample_X \<and> 2 < length sample_Y
   \<and> inverse_of 2 (S_pooled_matrix 2 sample_X sample_Y) [[4, 2], [2, 4]]
   \<and> F_statistic 2 sample_X sample_Y [[4, 2], [2, 4]] = 27 / 4
   \<and> pooled_covariance 2 sample_X 2 sample_Y
       = Returns (Array2 2 (S_pooled_matrix 2 sample_X sample_Y))
   \<and> TwoSampleT2Test (Array2 2 sample_X) (Array2 2 sample_Y) =
       Returns \<lparr> statistic = Array0 (F_statistic 2 sample_X sample_Y [[4, 2], [2, 4]]),
                 p_value = Array0 (upper_tail (int 2)
                             (int (length sample_X) + int (length sample_Y) - int 2 - 1)
                             (F_statistic 2 sample_X sample_Y [[4, 2], [2, 4]])),
                 printed_df = (int 2, int (length sample_X) + int (length sample_Y) - int 2 - 1) \<rparr>"
proof -
  have h1: "wf_array (Array2 2 sample_X)" by (simp add: sample_X_def)
  have h2: "wf_array (Array2 2 sample_Y)" by (simp add: sample_Y_def)
  have h3: "(2 :: nat) \<le> 2" by simp
  have h4: "2 < length sample_X" by (simp add: sample_X_def)
  have h5: "2 < length sample_Y" by (simp add: sample_Y_def)
  have h6: "inverse_of 2 (S_pooled_matrix 2 sample_X sample_Y) [[4, 2], [2, 4]]"
    by code_simp
  have v: "F_statistic 2 sample_X sample_Y [[4, 2], [2, 4]] = 27 / 4" by code_simp
  from statistic_and_p_value [OF h1 h2 h3 h4 h5 h6] h1 h2 h3 h4 h5 h6 v
  show ?thesis by blast
qed

end
